theory Spec2Isabelle
  imports Main "HOL-Library.Stream"
begin

section \<open>The responder package of cli.mod\<close>

text \<open>
  A shallow embedding of \<^verbatim>\<open>cli/responder/response.go\<close>: the responder \<^verbatim>\<open>R\<close>, its
  constructor \<^verbatim>\<open>New\<close> with the three option setters, the prompt and help printers, and the
  response loop \<^verbatim>\<open>GetResponseIndent\<close>. The variants \<^verbatim>\<open>NewOrPanic\<close>, \<^verbatim>\<open>GetResponseOrDie\<close> and
  \<^verbatim>\<open>GetResponseIndentOrDie\<close>, which turn an error into a panic or an exit of the process,
  and the type \<^verbatim>\<open>FixedResponse\<close> are left out.
\<close>

subsection \<open>Runes, Unicode tables and formatting\<close>

text \<open>
  A Go \<^verbatim>\<open>rune\<close> is a signed 32-bit code point. The code compares runes, looks them up and
  prints them; it does no arithmetic on them, so a rune is an integer here.
\<close>

type_synonym rune = int

definition helpRune :: rune where
  "helpRune = 63"

text \<open>\<^verbatim>\<open>unicode.ReplacementChar\<close>, U+FFFD.\<close>

definition ReplacementChar :: rune where
  "ReplacementChar = 65533"

text \<open>
  \<^verbatim>\<open>unicode.IsUpper\<close>, \<^verbatim>\<open>unicode.IsSpace\<close> and \<^verbatim>\<open>unicode.ToLower\<close> belong to Go's standard
  library; their tables are not part of the package. Every function that consults them takes
  them as a parameter.
\<close>

record unicode =
  IsUpper :: "rune \<Rightarrow> bool"
  IsSpace :: "rune \<Rightarrow> bool"
  ToLower :: "rune \<Rightarrow> rune"

text \<open>
  The tables on U+0000..U+007F (and the two Latin-1 spaces), used to run the model on
  examples. Above that range this instance treats every rune as caseless.
\<close>

definition ascii :: unicode where
  "ascii = \<lparr> IsUpper = (\<lambda>c. 65 \<le> c \<and> c \<le> 90),
             IsSpace = (\<lambda>c. c \<in> {9, 10, 11, 12, 13, 32, 133, 160}),
             ToLower = (\<lambda>c. if 65 \<le> c \<and> c \<le> 90 then c + 32 else c) \<rparr>"

text \<open>
  The verb \<^verbatim>\<open>%c\<close> of \<^verbatim>\<open>fmt\<close>: the UTF-8 encoding of the rune, with U+FFFD standing in for
  a value that is no Unicode scalar (negative, a surrogate, or above U+10FFFF).
\<close>

definition fmt_c :: "rune \<Rightarrow> string" where
  "fmt_c c =
     (let r = (if c < 0 \<or> 1114111 < c \<or> (55296 \<le> c \<and> c \<le> 57343) then 65533 else c) in
      if r < 128 then [char_of r]
      else if r < 2048 then [char_of (192 + r div 64), char_of (128 + r mod 64)]
      else if r < 65536 then
        [char_of (224 + r div 4096), char_of (128 + (r div 64) mod 64), char_of (128 + r mod 64)]
      else
        [char_of (240 + r div 262144), char_of (128 + (r div 4096) mod 64),
         char_of (128 + (r div 64) mod 64), char_of (128 + r mod 64)])"

text \<open>The verb \<^verbatim>\<open>%d\<close>: a decimal numeral, with a minus sign for a negative value.\<close>

fun digits :: "nat \<Rightarrow> string" where
  "digits n = (if n < 10 then [char_of (48 + n)] else digits (n div 10) @ [char_of (48 + n mod 10)])"

definition fmt_d :: "int \<Rightarrow> string" where
  "fmt_d i = (if i < 0 then CHR ''-'' # digits (nat (- i)) else digits (nat i))"

text \<open>
  \<^verbatim>\<open>strings.Repeat\<close> panics on a negative count; \<open>None\<close> is the panic.
\<close>

definition Repeat :: "string \<Rightarrow> int \<Rightarrow> string option" where
  "Repeat x count = (if count < 0 then None else Some (concat (replicate (nat count) x)))"

subsection \<open>Errors\<close>

text \<open>
  One constructor for each error value the package can hand out: the sentinel \<^verbatim>\<open>io.EOF\<close>, any
  other error of the reader (known by its message), and one for each \<^verbatim>\<open>fmt.Errorf\<close> in the
  package. \<open>Error\<close> is the message.
\<close>

datatype error =
    EOF
  | ReadError string
  | BadResponse rune
  | TooFewResponses
  | UppercaseResponse rune
  | WhitespaceResponse
  | HelpResponse
  | DefaultNotValid rune
  | BadMaxReprompts int
  | BadIndent int
  | BadFirstIndent int

fun Error :: "error \<Rightarrow> string" where
  "Error EOF = ''EOF''"
| "Error (ReadError m) = m"
| "Error (BadResponse c) = ''Bad response: '' @ fmt_c c"
| "Error TooFewResponses = ''too few allowed responses - there must be at least 2''"
| "Error (UppercaseResponse v) =
     ''only lowercase responses are allowed - '' @ [CHR 0x27] @ fmt_c v @ [CHR 0x27] @ '' is uppercase''"
| "Error WhitespaceResponse =
     ''a whitespace character is not an allowed response - it is used to select the default response''"
| "Error HelpResponse =
     [CHR 0x27] @ fmt_c helpRune @ [CHR 0x27] @ '' is not an allowed response - it is used to request help''"
| "Error (DefaultNotValid d) =
     ''SetDefault: the default response ('' @ fmt_c d @ '') is not in the list of valid responses''"
| "Error (BadMaxReprompts m) =
     ''SetMaxReprompts: the maximum number of reprompts ('' @ fmt_d m @ '') must be greater than 0''"
| "Error (BadIndent n) =
     ''SetIndents: the indent ('' @ fmt_d n @ '') must be greater than or equal to 0''"
| "Error (BadFirstIndent n) =
     ''SetIndents: the first indent ('' @ fmt_d n @ '') must be greater than or equal to 0''"

subsection \<open>The responder\<close>

text \<open>
  A Go map \<^verbatim>\<open>map[rune]string\<close> is an association list read through \<open>map_of\<close>. The order of
  the list stands for the order in which \<^verbatim>\<open>range\<close> happens to enumerate the map, which Go
  leaves open; a key that occurs twice counts once.
\<close>

type_synonym resp_map = "(rune \<times> string) list"

definition keys :: "resp_map \<Rightarrow> rune list" where
  "keys m = remdups (map fst m)"

definition len :: "resp_map \<Rightarrow> nat" where
  "len m = length (keys m)"

text \<open>A lookup \<^verbatim>\<open>m[k]\<close> whose result is used without the presence flag yields the empty string
  for a missing key.\<close>

definition index :: "resp_map \<Rightarrow> rune \<Rightarrow> string" where
  "index m k = (case map_of m k of None \<Rightarrow> [] | Some d \<Rightarrow> d)"

text \<open>
  The struct \<^verbatim>\<open>R\<close>. Its field \<^verbatim>\<open>rdr\<close> points to a buffered reader on standard input; what
  that reader will deliver is the component \<open>stdin\<close> of the state below.
\<close>

record R =
  prompt :: string
  validResps :: resp_map
  hasDflt :: bool
  dflt :: rune
  maxReprompts :: int
  limitPrompts :: bool
  fd :: int
  indent :: int
  indentFirst :: int

text \<open>
  An option is a function that may update the responder and may return an error:
  \<^verbatim>\<open>func(*R) error\<close>.
\<close>

type_synonym RespOptFunc = "R \<Rightarrow> error option \<times> R"

definition SetDefault :: "rune \<Rightarrow> RespOptFunc" where
  "SetDefault d r =
     (if map_of (validResps r) d = None then (Some (DefaultNotValid d), r)
      else (None, r\<lparr>dflt := d, hasDflt := True\<rparr>))"

definition SetMaxReprompts :: "int \<Rightarrow> RespOptFunc" where
  "SetMaxReprompts maximum r =
     (if maximum \<le> 0 then (Some (BadMaxReprompts maximum), r)
      else (None, r\<lparr>maxReprompts := maximum, limitPrompts := True\<rparr>))"

definition SetIndents :: "int \<Rightarrow> int \<Rightarrow> RespOptFunc" where
  "SetIndents indentFirst' indent' r =
     (if indent' < 0 then (Some (BadIndent indent'), r)
      else if indentFirst' < 0 then (Some (BadFirstIndent indentFirst'), r)
      else (None, r\<lparr>indent := indent', indentFirst := indentFirst'\<rparr>))"

text \<open>The first loop of \<^verbatim>\<open>New\<close>: the three checks on each key, in the order of the source.\<close>

fun check_responses :: "unicode \<Rightarrow> rune list \<Rightarrow> error option" where
  "check_responses U [] = None"
| "check_responses U (v # vs) =
     (if IsUpper U v then Some (UppercaseResponse v)
      else if IsSpace U v then Some WhitespaceResponse
      else if v = helpRune then Some HelpResponse
      else check_responses U vs)"

text \<open>The second loop of \<^verbatim>\<open>New\<close>: the options in order, stopping at the first error.\<close>

fun apply_opts :: "RespOptFunc list \<Rightarrow> R \<Rightarrow> R option \<times> error option" where
  "apply_opts [] r = (Some r, None)"
| "apply_opts (opt # opts) r =
     (case opt r of
        (Some err, _) \<Rightarrow> (None, Some err)
      | (None, r') \<Rightarrow> apply_opts opts r')"

text \<open>
  \<^verbatim>\<open>New\<close> returns the pair of Go: a responder or \<^verbatim>\<open>nil\<close>, and an error or \<^verbatim>\<open>nil\<close>.
  \<^verbatim>\<open>syscall.Stdin\<close> is file descriptor 0.
\<close>

definition New :: "unicode \<Rightarrow> string \<Rightarrow> resp_map \<Rightarrow> RespOptFunc list \<Rightarrow> R option \<times> error option" where
  "New U prompt' responses opts =
     (let r = \<lparr> prompt = prompt', validResps = [], hasDflt = False, dflt = 0,
                maxReprompts = 0, limitPrompts = False, fd = 0, indent = 0, indentFirst = 0 \<rparr>
      in if len responses \<le> 1 then (None, Some TooFewResponses)
         else case check_responses U (keys responses) of
                Some err \<Rightarrow> (None, Some err)
              | None \<Rightarrow> apply_opts opts (r\<lparr>validResps := responses\<rparr>))"

text \<open>The options a caller can build: those of the three setters of the package.\<close>

inductive pkg_opt :: "RespOptFunc \<Rightarrow> bool" where
  "pkg_opt (SetDefault d)"
| "pkg_opt (SetMaxReprompts maximum)"
| "pkg_opt (SetIndents indentFirst' indent')"

subsection \<open>The state: the responder, standard input, and what has been written\<close>

text \<open>
  A read of one rune from standard input delivers a rune and an error or \<^verbatim>\<open>nil\<close>. Standard
  input is the stream of the reads to come. What the program writes is kept as a list of
  events in the order of the calls: text on standard output, text on standard error, and
  the calls into the text wrapper \<^verbatim>\<open>twrap\<close>, whose layout is not part of the package.

  The methods of \<^verbatim>\<open>R\<close> have value receivers and assign to no field. The state carries the
  responder of the caller, so that a property can say what a call leaves of it; a method
  reads the fields from there.
\<close>

type_synonym read = "rune \<times> error option"

datatype event =
    Stdout string
  | Stderr string
  | TwrapPrintln
  | TwrapWrap string int
  | TwrapWrapPrefixed string string int

record state =
  resp :: R
  stdin :: "read stream"
  trace :: "event list"

definition Print :: "string \<Rightarrow> state \<Rightarrow> state" where
  "Print x s = s\<lparr>trace := trace s @ [Stdout x]\<rparr>"

definition Eprintln :: "string \<Rightarrow> state \<Rightarrow> state" where
  "Eprintln x s = s\<lparr>trace := trace s @ [Stderr (x @ [CHR 0x0A])]\<rparr>"

definition twrap :: "event \<Rightarrow> state \<Rightarrow> state" where
  "twrap e s = s\<lparr>trace := trace s @ [e]\<rparr>"

text \<open>What a list of events has put on standard output by \<^verbatim>\<open>fmt\<close>.\<close>

fun stdout_text :: "event list \<Rightarrow> string" where
  "stdout_text [] = []"
| "stdout_text (Stdout x # es) = x @ stdout_text es"
| "stdout_text (e # es) = stdout_text es"

subsection \<open>Printing the prompt and the help\<close>

definition getSortedValidResponses :: "R \<Rightarrow> rune list" where
  "getSortedValidResponses r = sort (keys (validResps r))"

text \<open>The loop of \<^verbatim>\<open>PrintValidResponses\<close> over the sorted keys, with the separator it carries.\<close>

fun print_responses :: "R \<Rightarrow> rune list \<Rightarrow> string \<Rightarrow> state \<Rightarrow> string \<times> state" where
  "print_responses r [] sep s = (sep, s)"
| "print_responses r (c # cs) sep s =
     (if hasDflt r \<and> c = dflt r then print_responses r cs sep s
      else print_responses r cs ''/'' (Print (sep @ fmt_c c) s))"

definition PrintValidResponses :: "state \<Rightarrow> state" where
  "PrintValidResponses s =
     (let r = resp s;
          s1 = Print ''('' s;
          responses = getSortedValidResponses r;
          (sep, s2) = (if hasDflt r then (''/'', Print (''['' @ fmt_c (dflt r) @ '']'') s1)
                       else ('''', s1));
          (sep', s3) = print_responses r responses sep s2
      in Print (sep' @ fmt_c helpRune @ ''): '') s3)"

definition PrintPrompt :: "state \<Rightarrow> state" where
  "PrintPrompt s = PrintValidResponses (Print ''? '' (Print (prompt (resp s)) s))"

text \<open>The loop of \<^verbatim>\<open>PrintHelpIndent\<close> over the sorted keys.\<close>

fun help_responses :: "R \<Rightarrow> int \<Rightarrow> rune list \<Rightarrow> state \<Rightarrow> state" where
  "help_responses r ind [] s = s"
| "help_responses r ind (k # ks) s =
     (if hasDflt r \<and> dflt r = k then help_responses r ind ks s
      else help_responses r ind ks
             (twrap (TwrapWrapPrefixed (fmt_c k @ ''  '') (index (validResps r) k) (ind + 4)) s))"

definition PrintHelpIndent :: "int \<Rightarrow> state \<Rightarrow> state" where
  "PrintHelpIndent ind s =
     (let r = resp s;
          s1 = twrap TwrapPrintln s;
          s2 = twrap (TwrapWrap ''Enter one of:'' ind) s1;
          ks = getSortedValidResponses r;
          s3 = (if hasDflt r then
                  twrap (TwrapWrapPrefixed (fmt_c (dflt r) @ ''  '')
                           (index (validResps r) (dflt r) @ '' (this is the default)'')
                           (ind + 4)) s2
                else s2);
          s4 = help_responses r ind ks s3;
          s5 = twrap (TwrapWrapPrefixed (fmt_c helpRune @ ''  '')
                        (''to show this message'' @ [CHR 0x0A]) (ind + 4)) s4
      in twrap (TwrapWrap
           (''to select the default either enter the character or whitespace'' @
            '' (a space, tab or return character)'') ind) s5)"

definition PrintHelp :: "state \<Rightarrow> state" where
  "PrintHelp s = PrintHelpIndent (indent (resp s)) s"

subsection \<open>Reading a response\<close>

text \<open>
  \<^verbatim>\<open>getRune\<close> switches the terminal to raw mode around the read when it can; that has no
  part in what is read. The read takes the next item of standard input.
\<close>

definition getRune :: "state \<Rightarrow> read \<times> state" where
  "getRune s = (shd (stdin s), s\<lparr>stdin := stl (stdin s)\<rparr>)"

definition getResp :: "unicode \<Rightarrow> state \<Rightarrow> read \<times> state" where
  "getResp U s =
     (let r = resp s in
      case getRune s of ((c, err), s') \<Rightarrow>
        if err \<noteq> None then ((ReplacementChar, err), s')
        else if hasDflt r \<and> IsSpace U c then ((dflt r, None), s')
        else if c \<noteq> helpRune then
          (let c' = ToLower U c in
           if map_of (validResps r) c' = None
           then ((ReplacementChar, Some (BadResponse c')), s')
           else ((c', None), s'))
        else ((c, None), s'))"

text \<open>
  The counter \<^verbatim>\<open>i\<close> is a Go \<^verbatim>\<open>int\<close> of 64 bits; \<^verbatim>\<open>i++\<close> wraps around at the top.
\<close>

definition incr :: "int \<Rightarrow> int" where
  "incr i = (if i = 9223372036854775807 then - 9223372036854775808 else i + 1)"

text \<open>
  The \<^verbatim>\<open>for\<close> loop of \<^verbatim>\<open>GetResponseIndent\<close>. It has no bound of its own: with no limit on the
  prompts it runs for as long as the reads are bad, so it is a partial function, and \<open>None\<close>
  is the run that never returns. Besides the response and the error it returns, the result
  carries the value of the counter \<^verbatim>\<open>i\<close> at the return.
\<close>

partial_function (option) response_loop ::
  "unicode \<Rightarrow> int \<Rightarrow> string \<Rightarrow> string \<Rightarrow> int \<Rightarrow> state \<Rightarrow> (read \<times> int \<times> state) option" where
  "response_loop U second prefix secondPrefix i s =
     (case getResp U (PrintPrompt (Print prefix s)) of ((response, err), s') \<Rightarrow>
        if response = helpRune
        then response_loop U second secondPrefix secondPrefix i (PrintHelpIndent second s')
        else
          (case err of
             None \<Rightarrow> Some ((response, err), incr i, s')
           | Some e \<Rightarrow>
               if e = EOF then Some ((response, err), incr i, s')
               else if limitPrompts (resp s') \<and> incr i > maxReprompts (resp s')
               then Some ((response, err), incr i, s')
               else response_loop U second secondPrefix secondPrefix (incr i)
                      (Eprintln (secondPrefix @ ''    '' @ Error e) (Eprintln [] s'))))"

text \<open>A call either returns or panics.\<close>

datatype 'a outcome = Returns 'a | Panics

definition GetResponseIndent ::
  "unicode \<Rightarrow> int \<Rightarrow> int \<Rightarrow> state \<Rightarrow> (read outcome \<times> state) option" where
  "GetResponseIndent U first second s =
     (case Repeat '' '' first of
        None \<Rightarrow> Some (Panics, s)
      | Some prefix \<Rightarrow>
          (case Repeat '' '' second of
             None \<Rightarrow> Some (Panics, s)
           | Some secondPrefix \<Rightarrow>
               map_option (\<lambda>(res, i, s'). (Returns res, s'))
                 (response_loop U second prefix secondPrefix 0 s)))"

definition GetResponse :: "unicode \<Rightarrow> state \<Rightarrow> (read outcome \<times> state) option" where
  "GetResponse U s = GetResponseIndent U (indentFirst (resp s)) (indent (resp s)) s"

subsection \<open>Notions used to state the properties\<close>

text \<open>
  A valid configuration is a responder that \<^verbatim>\<open>New\<close> has returned, without an error, for
  options built by the setters of the package.
\<close>

definition valid_config :: "unicode \<Rightarrow> R \<Rightarrow> bool" where
  "valid_config U r \<longleftrightarrow>
     (\<exists>prompt' responses opts.
        (\<forall>opt \<in> set opts. pkg_opt opt) \<and> New U prompt' responses opts = (Some r, None))"

text \<open>What the options of the package keep true of a responder.\<close>

definition opts_inv :: "R \<Rightarrow> bool" where
  "opts_inv r \<longleftrightarrow>
     (hasDflt r \<longrightarrow> dflt r \<in> dom (map_of (validResps r))) \<and>
     (limitPrompts r \<longrightarrow> 0 < maxReprompts r) \<and> 0 \<le> indent r \<and> 0 \<le> indentFirst r"

text \<open>
  An invalid character: it is not whitespace standing for a default, it is not the help
  character, and its lower-case form is no key of the valid responses.
\<close>

definition invalid_char :: "unicode \<Rightarrow> R \<Rightarrow> rune \<Rightarrow> bool" where
  "invalid_char U r c \<longleftrightarrow>
     \<not> (hasDflt r \<and> IsSpace U c) \<and> c \<noteq> helpRune \<and> map_of (validResps r) (ToLower U c) = None"

text \<open>
  What the loop writes in \<open>n\<close> turns that each read the help character: the prefix, the
  prompt and the help text, \<open>n\<close> times, the first time with the prefix of the first turn.
\<close>

fun help_rounds :: "nat \<Rightarrow> int \<Rightarrow> string \<Rightarrow> string \<Rightarrow> state \<Rightarrow> state" where
  "help_rounds 0 second prefix secondPrefix s = s"
| "help_rounds (Suc n) second prefix secondPrefix s =
     help_rounds n second secondPrefix secondPrefix
       (PrintHelpIndent second (PrintPrompt (Print prefix s)))"

text \<open>Strings with a separator between each two of them.\<close>

fun separated :: "string \<Rightarrow> string list \<Rightarrow> string" where
  "separated sep [] = []"
| "separated sep [x] = x"
| "separated sep (x # y # ys) = x @ sep @ separated sep (y # ys)"

subsection \<open>Examples\<close>

text \<open>The responses \<^verbatim>\<open>y\<close> and \<^verbatim>\<open>n\<close> of the package's examples, and a closed input.\<close>

definition yn :: resp_map where
  "yn = [(121, ''delete the file''), (110, ''leave the file alone'')]"

definition closed :: "read stream" where
  "closed = sconst (0, Some EOF)"

definition example_state :: "RespOptFunc list \<Rightarrow> read list \<Rightarrow> state" where
  "example_state opts reads =
     \<lparr> resp = the (fst (New ascii ''Delete File'' yn opts)),
       stdin = shift reads closed,
       trace = [] \<rparr>"

section \<open>Properties\<close>

subsection \<open>Printing changes the trace only\<close>

lemma Print_fields [simp]:
  "resp (Print x s) = resp s" "stdin (Print x s) = stdin s"
  "trace (Print x s) = trace s @ [Stdout x]"
  by (simp_all add: Print_def)

lemma Eprintln_fields [simp]:
  "resp (Eprintln x s) = resp s" "stdin (Eprintln x s) = stdin s"
  "trace (Eprintln x s) = trace s @ [Stderr (x @ [CHR 0x0A])]"
  by (simp_all add: Eprintln_def)

lemma twrap_fields [simp]:
  "resp (twrap e s) = resp s" "stdin (twrap e s) = stdin s"
  "trace (twrap e s) = trace s @ [e]"
  by (simp_all add: twrap_def)

lemma print_responses_fields [simp]:
  "resp (snd (print_responses r cs sep s)) = resp s"
  "stdin (snd (print_responses r cs sep s)) = stdin s"
  by (induction cs arbitrary: sep s) simp_all

lemma PrintValidResponses_fields [simp]:
  "resp (PrintValidResponses s) = resp s" "stdin (PrintValidResponses s) = stdin s"
  by (simp_all add: PrintValidResponses_def Let_def split_beta)

lemma PrintPrompt_fields [simp]:
  "resp (PrintPrompt s) = resp s" "stdin (PrintPrompt s) = stdin s"
  by (simp_all add: PrintPrompt_def)

lemma help_responses_fields [simp]:
  "resp (help_responses r ind ks s) = resp s"
  "stdin (help_responses r ind ks s) = stdin s"
  by (induction ks arbitrary: s) simp_all

lemma PrintHelpIndent_fields [simp]:
  "resp (PrintHelpIndent ind s) = resp s" "stdin (PrintHelpIndent ind s) = stdin s"
  by (simp_all add: PrintHelpIndent_def Let_def)

lemma PrintHelp_fields [simp]:
  "resp (PrintHelp s) = resp s" "stdin (PrintHelp s) = stdin s"
  by (simp_all add: PrintHelp_def)

subsection \<open>Printing does not depend on standard input\<close>

lemma Print_stdin_update [simp]: "Print x (s\<lparr>stdin := t\<rparr>) = (Print x s)\<lparr>stdin := t\<rparr>"
  by (simp add: Print_def)

lemma Eprintln_stdin_update [simp]: "Eprintln x (s\<lparr>stdin := t\<rparr>) = (Eprintln x s)\<lparr>stdin := t\<rparr>"
  by (simp add: Eprintln_def)

lemma twrap_stdin_update [simp]: "twrap e (s\<lparr>stdin := t\<rparr>) = (twrap e s)\<lparr>stdin := t\<rparr>"
  by (simp add: twrap_def)

lemma print_responses_stdin_update:
  "print_responses r cs sep (s\<lparr>stdin := t\<rparr>) =
     (fst (print_responses r cs sep s), (snd (print_responses r cs sep s))\<lparr>stdin := t\<rparr>)"
  by (induction cs arbitrary: sep s) simp_all

lemma PrintValidResponses_stdin_update [simp]:
  "PrintValidResponses (s\<lparr>stdin := t\<rparr>) = (PrintValidResponses s)\<lparr>stdin := t\<rparr>"
  by (simp add: PrintValidResponses_def Let_def split_beta print_responses_stdin_update)

lemma PrintPrompt_stdin_update [simp]:
  "PrintPrompt (s\<lparr>stdin := t\<rparr>) = (PrintPrompt s)\<lparr>stdin := t\<rparr>"
  by (simp add: PrintPrompt_def)

lemma help_responses_stdin_update [simp]:
  "help_responses r ind ks (s\<lparr>stdin := t\<rparr>) = (help_responses r ind ks s)\<lparr>stdin := t\<rparr>"
  by (induction ks arbitrary: s) simp_all

lemma PrintHelpIndent_stdin_update [simp]:
  "PrintHelpIndent ind (s\<lparr>stdin := t\<rparr>) = (PrintHelpIndent ind s)\<lparr>stdin := t\<rparr>"
  by (simp add: PrintHelpIndent_def Let_def)

subsection \<open>One read\<close>

lemma getResp_state: "snd (getResp U s) = s\<lparr>stdin := stl (stdin s)\<rparr>"
  by (simp add: getResp_def getRune_def Let_def split: prod.splits)

lemma getResp_read_error:
  "shd (stdin s) = (c, Some e) \<Longrightarrow>
   getResp U s = ((ReplacementChar, Some e), s\<lparr>stdin := stl (stdin s)\<rparr>)"
  by (simp add: getResp_def getRune_def)

lemma getResp_default:
  "shd (stdin s) = (c, None) \<Longrightarrow> hasDflt (resp s) \<Longrightarrow> IsSpace U c \<Longrightarrow>
   getResp U s = ((dflt (resp s), None), s\<lparr>stdin := stl (stdin s)\<rparr>)"
  by (simp add: getResp_def getRune_def)

lemma getResp_help:
  "shd (stdin s) = (helpRune, None) \<Longrightarrow> \<not> (hasDflt (resp s) \<and> IsSpace U helpRune) \<Longrightarrow>
   getResp U s = ((helpRune, None), s\<lparr>stdin := stl (stdin s)\<rparr>)"
  by (auto simp add: getResp_def getRune_def)

lemma getResp_valid:
  "shd (stdin s) = (c, None) \<Longrightarrow> \<not> (hasDflt (resp s) \<and> IsSpace U c) \<Longrightarrow> c \<noteq> helpRune \<Longrightarrow>
   map_of (validResps (resp s)) (ToLower U c) = Some d \<Longrightarrow>
   getResp U s = ((ToLower U c, None), s\<lparr>stdin := stl (stdin s)\<rparr>)"
  by (auto simp add: getResp_def getRune_def)

lemma getResp_invalid:
  "shd (stdin s) = (c, None) \<Longrightarrow> \<not> (hasDflt (resp s) \<and> IsSpace U c) \<Longrightarrow> c \<noteq> helpRune \<Longrightarrow>
   map_of (validResps (resp s)) (ToLower U c) = None \<Longrightarrow>
   getResp U s = ((ReplacementChar, Some (BadResponse (ToLower U c))), s\<lparr>stdin := stl (stdin s)\<rparr>)"
  by (auto simp add: getResp_def getRune_def)

lemma ReplacementChar_not_help [simp]: "ReplacementChar \<noteq> helpRune"
  by (simp add: ReplacementChar_def helpRune_def)

subsection \<open>One turn of the loop\<close>

lemma response_loop_help:
  "getResp U (PrintPrompt (Print prefix s)) = ((helpRune, err), s') \<Longrightarrow>
   response_loop U second prefix secondPrefix i s =
   response_loop U second secondPrefix secondPrefix i (PrintHelpIndent second s')"
  by (subst response_loop.simps) auto

lemma response_loop_accept:
  "getResp U (PrintPrompt (Print prefix s)) = ((c, None), s') \<Longrightarrow> c \<noteq> helpRune \<Longrightarrow>
   response_loop U second prefix secondPrefix i s = Some ((c, None), incr i, s')"
  by (subst response_loop.simps) auto

lemma response_loop_eof:
  "getResp U (PrintPrompt (Print prefix s)) = ((c, Some EOF), s') \<Longrightarrow> c \<noteq> helpRune \<Longrightarrow>
   response_loop U second prefix secondPrefix i s = Some ((c, Some EOF), incr i, s')"
  by (subst response_loop.simps) auto

lemma response_loop_exhausted:
  "getResp U (PrintPrompt (Print prefix s)) = ((c, Some e), s') \<Longrightarrow> c \<noteq> helpRune \<Longrightarrow>
   limitPrompts (resp s') \<Longrightarrow> maxReprompts (resp s') < incr i \<Longrightarrow>
   response_loop U second prefix secondPrefix i s = Some ((c, Some e), incr i, s')"
  by (subst response_loop.simps) auto

lemma response_loop_retry:
  "getResp U (PrintPrompt (Print prefix s)) = ((c, Some e), s') \<Longrightarrow> c \<noteq> helpRune \<Longrightarrow>
   e \<noteq> EOF \<Longrightarrow> \<not> (limitPrompts (resp s') \<and> maxReprompts (resp s') < incr i) \<Longrightarrow>
   response_loop U second prefix secondPrefix i s =
   response_loop U second secondPrefix secondPrefix (incr i)
     (Eprintln (secondPrefix @ ''    '' @ Error e) (Eprintln [] s'))"
  by (subst response_loop.simps) auto

subsection \<open>What \<open>New\<close> establishes\<close>

lemma keys_set: "set (keys m) = dom (map_of m)"
  by (simp add: keys_def dom_map_of_conv_image_fst)

lemma len_card: "len m = card (dom (map_of m))"
  by (simp add: len_def keys_def length_remdups_card_conv dom_map_of_conv_image_fst)

lemma check_responses_None:
  "check_responses U ks = None \<longleftrightarrow> (\<forall>k \<in> set ks. \<not> IsUpper U k \<and> \<not> IsSpace U k \<and> k \<noteq> helpRune)"
  by (induction ks) auto

lemma apply_opts_shape:
  "(\<exists>e. apply_opts opts r = (None, Some e)) \<or> (\<exists>r'. apply_opts opts r = (Some r', None))"
  by (induction opts arbitrary: r) (auto split: prod.splits option.splits)

lemma pkg_opt_preserves:
  "pkg_opt opt \<Longrightarrow> opt r = (None, r') \<Longrightarrow> opts_inv r \<Longrightarrow>
   opts_inv r' \<and> validResps r' = validResps r \<and> prompt r' = prompt r"
  by (induction rule: pkg_opt.induct)
     (auto simp: SetDefault_def SetMaxReprompts_def SetIndents_def opts_inv_def split: if_splits)

lemma apply_opts_preserves:
  "\<forall>opt \<in> set opts. pkg_opt opt \<Longrightarrow> apply_opts opts r = (Some r', None) \<Longrightarrow> opts_inv r \<Longrightarrow>
   opts_inv r' \<and> validResps r' = validResps r \<and> prompt r' = prompt r"
proof (induction opts arbitrary: r)
  case Nil
  then show ?case by simp
next
  case (Cons opt opts)
  from Cons.prems(2) obtain r1 where step: "opt r = (None, r1)" and rest: "apply_opts opts r1 = (Some r', None)"
    by (auto split: prod.splits option.splits)
  from Cons.prems(1) have "pkg_opt opt" by simp
  from pkg_opt_preserves [OF this step Cons.prems(3)]
  have r1: "opts_inv r1" "validResps r1 = validResps r" "prompt r1 = prompt r" by simp_all
  from Cons.IH [OF _ rest r1(1)] Cons.prems(1) r1 show ?case by simp
qed

lemma New_invariants:
  assumes opts: "\<forall>opt \<in> set opts. pkg_opt opt"
    and new: "New U prompt' responses opts = (Some r, None)"
  shows "opts_inv r" and "validResps r = responses" and "prompt r = prompt'"
    and "2 \<le> card (dom (map_of responses))"
    and "\<forall>k \<in> dom (map_of responses). \<not> IsUpper U k \<and> \<not> IsSpace U k \<and> k \<noteq> helpRune"
proof -
  let ?r0 = "\<lparr> prompt = prompt', validResps = responses, hasDflt = False, dflt = 0,
                maxReprompts = 0, limitPrompts = False, fd = 0, indent = 0, indentFirst = 0 \<rparr>"
  from new have big: "\<not> len responses \<le> 1"
    by (auto simp: New_def Let_def split: if_splits)
  with new have chk: "check_responses U (keys responses) = None"
    by (auto simp: New_def Let_def split: option.splits)
  with new big have app: "apply_opts opts ?r0 = (Some r, None)"
    by (simp add: New_def Let_def)
  have "opts_inv ?r0" by (simp add: opts_inv_def)
  from apply_opts_preserves [OF opts app this]
  show "opts_inv r" and "validResps r = responses" and "prompt r = prompt'" by simp_all
  from big show "2 \<le> card (dom (map_of responses))" by (simp add: len_card)
  from chk show "\<forall>k \<in> dom (map_of responses). \<not> IsUpper U k \<and> \<not> IsSpace U k \<and> k \<noteq> helpRune"
    by (simp add: check_responses_None keys_set)
qed

lemma valid_config_keys:
  "valid_config U r \<Longrightarrow> k \<in> dom (map_of (validResps r)) \<Longrightarrow>
   \<not> IsUpper U k \<and> \<not> IsSpace U k \<and> k \<noteq> helpRune"
  unfolding valid_config_def using New_invariants(2,5) by blast

lemma valid_config_dflt:
  "valid_config U r \<Longrightarrow> hasDflt r \<Longrightarrow> dflt r \<in> dom (map_of (validResps r))"
  unfolding valid_config_def using New_invariants(1) opts_inv_def by blast

lemma valid_config_card: "valid_config U r \<Longrightarrow> 2 \<le> card (dom (map_of (validResps r)))"
  unfolding valid_config_def using New_invariants(2,4) by metis

lemma valid_config_indents: "valid_config U r \<Longrightarrow> 0 \<le> indent r \<and> 0 \<le> indentFirst r"
  unfolding valid_config_def using New_invariants(1) opts_inv_def by blast

subsection \<open>One turn of the loop, by the read at the head of standard input\<close>

lemma getResp_fst_cong:
  "resp s' = resp s \<Longrightarrow> stdin s' = stdin s \<Longrightarrow> fst (getResp U s') = fst (getResp U s)"
  by (cases "shd (stdin s)") (simp add: getResp_def getRune_def Let_def)

lemma getResp_after_prompt:
  "getResp U (PrintPrompt (Print prefix s)) =
     (fst (getResp U s), (PrintPrompt (Print prefix s))\<lparr>stdin := stl (stdin s)\<rparr>)"
proof -
  have "fst (getResp U (PrintPrompt (Print prefix s))) = fst (getResp U s)"
    by (rule getResp_fst_cong) simp_all
  moreover have "snd (getResp U (PrintPrompt (Print prefix s))) =
      (PrintPrompt (Print prefix s))\<lparr>stdin := stl (stdin s)\<rparr>"
    by (simp add: getResp_state)
  ultimately show ?thesis by (simp add: prod_eq_iff)
qed

lemma turn_help:
  assumes "fst (getResp U s) = (helpRune, err)"
  shows "response_loop U second prefix secondPrefix i s =
         response_loop U second secondPrefix secondPrefix i
           ((PrintHelpIndent second (PrintPrompt (Print prefix s)))\<lparr>stdin := stl (stdin s)\<rparr>)"
  by (subst response_loop_help [where err = err and s' = "(PrintPrompt (Print prefix s))\<lparr>stdin := stl (stdin s)\<rparr>"])
     (simp_all add: getResp_after_prompt assms)

lemma turn_accept:
  assumes "fst (getResp U s) = (v, None)" "v \<noteq> helpRune"
  shows "response_loop U second prefix secondPrefix i s =
         Some ((v, None), incr i, (PrintPrompt (Print prefix s))\<lparr>stdin := stl (stdin s)\<rparr>)"
  by (rule response_loop_accept) (simp_all add: getResp_after_prompt assms)

lemma turn_eof:
  assumes "shd (stdin s) = (c, Some EOF)"
  shows "response_loop U second prefix secondPrefix i s =
         Some ((ReplacementChar, Some EOF), incr i,
               (PrintPrompt (Print prefix s))\<lparr>stdin := stl (stdin s)\<rparr>)"
  by (rule response_loop_eof) (simp_all add: getResp_after_prompt getResp_read_error [OF assms])

lemma turn_error:
  assumes "fst (getResp U s) = (ReplacementChar, Some e)" "e \<noteq> EOF"
  shows "response_loop U second prefix secondPrefix i s =
         (if limitPrompts (resp s) \<and> maxReprompts (resp s) < incr i
          then Some ((ReplacementChar, Some e), incr i,
                     (PrintPrompt (Print prefix s))\<lparr>stdin := stl (stdin s)\<rparr>)
          else response_loop U second secondPrefix secondPrefix (incr i)
                 ((Eprintln (secondPrefix @ ''    '' @ Error e)
                    (Eprintln [] (PrintPrompt (Print prefix s))))\<lparr>stdin := stl (stdin s)\<rparr>))"
proof (cases "limitPrompts (resp s) \<and> maxReprompts (resp s) < incr i")
  case True
  then show ?thesis
    by (subst response_loop_exhausted [where c = ReplacementChar and e = e
          and s' = "(PrintPrompt (Print prefix s))\<lparr>stdin := stl (stdin s)\<rparr>"])
       (simp_all add: getResp_after_prompt assms)
next
  case False
  then show ?thesis
    by (subst response_loop_retry [where c = ReplacementChar and e = e
          and s' = "(PrintPrompt (Print prefix s))\<lparr>stdin := stl (stdin s)\<rparr>"])
       (auto simp add: getResp_after_prompt assms)
qed

lemma getResp_invalid_char:
  "shd (stdin s) = (c, None) \<Longrightarrow> invalid_char U (resp s) c \<Longrightarrow>
   fst (getResp U s) = (ReplacementChar, Some (BadResponse (ToLower U c)))"
  by (simp add: getResp_invalid invalid_char_def)

lemma incr_small [simp]: "incr 0 = 1" "incr 1 = 2" "incr 2 = 3"
  by (simp_all add: incr_def)

lemma three_invalid_reads:
  assumes "limitPrompts (resp s)" and "maxReprompts (resp s) = 2"
    and "stdin s = (c1, None) ## (c2, None) ## (c3, None) ## rest"
    and "invalid_char U (resp s) c1" and "invalid_char U (resp s) c2"
    and "invalid_char U (resp s) c3"
  shows "response_loop U second p1 p2 0 s =
         Some ((ReplacementChar, Some (BadResponse (ToLower U c3))), 3,
           (PrintPrompt (Print p2
              (Eprintln (p2 @ ''    '' @ Error (BadResponse (ToLower U c2))) (Eprintln []
                (PrintPrompt (Print p2
                  (Eprintln (p2 @ ''    '' @ Error (BadResponse (ToLower U c1))) (Eprintln []
                    (PrintPrompt (Print p1 s))))))))))\<lparr>stdin := rest\<rparr>)"
proof -
  let ?s1 = "(Eprintln (p2 @ ''    '' @ Error (BadResponse (ToLower U c1))) (Eprintln []
                    (PrintPrompt (Print p1 s))))\<lparr>stdin := (c2, None) ## (c3, None) ## rest\<rparr>"
  let ?s2 = "(Eprintln (p2 @ ''    '' @ Error (BadResponse (ToLower U c2))) (Eprintln []
                (PrintPrompt (Print p2 ?s1))))\<lparr>stdin := (c3, None) ## rest\<rparr>"
  have g1: "fst (getResp U s) = (ReplacementChar, Some (BadResponse (ToLower U c1)))"
    using assms by (simp add: getResp_invalid_char)
  have g2: "fst (getResp U ?s1) = (ReplacementChar, Some (BadResponse (ToLower U c2)))"
    using assms by (simp add: getResp_invalid_char)
  have g3: "fst (getResp U ?s2) = (ReplacementChar, Some (BadResponse (ToLower U c3)))"
    using assms by (simp add: getResp_invalid_char)
  have t1: "response_loop U second p1 p2 0 s = response_loop U second p2 p2 1 ?s1"
    using assms by (subst turn_error [OF g1]) simp_all
  have t2: "response_loop U second p2 p2 1 ?s1 = response_loop U second p2 p2 2 ?s2"
    using assms by (subst turn_error [OF g2]) simp_all
  have t3: "response_loop U second p2 p2 2 ?s2 =
      Some ((ReplacementChar, Some (BadResponse (ToLower U c3))), 3,
            (PrintPrompt (Print p2 ?s2))\<lparr>stdin := rest\<rparr>)"
    using assms by (subst turn_error [OF g3]) simp_all
  have fin: "(PrintPrompt (Print p2 ?s2))\<lparr>stdin := rest\<rparr> =
      (PrintPrompt (Print p2
        (Eprintln (p2 @ ''    '' @ Error (BadResponse (ToLower U c2))) (Eprintln []
          (PrintPrompt (Print p2
            (Eprintln (p2 @ ''    '' @ Error (BadResponse (ToLower U c1))) (Eprintln []
              (PrintPrompt (Print p1 s))))))))))\<lparr>stdin := rest\<rparr>"
    by (simp del: Error.simps)
  have "response_loop U second p1 p2 0 s =
      Some ((ReplacementChar, Some (BadResponse (ToLower U c3))), 3,
            (PrintPrompt (Print p2 ?s2))\<lparr>stdin := rest\<rparr>)"
    by (simp only: t1 t2 t3)
  then show ?thesis
    unfolding fin by simp
qed

subsection \<open>The examples, evaluated\<close>

lemma stdout_text_append [simp]: "stdout_text (xs @ ys) = stdout_text xs @ stdout_text ys"
  by (induction xs rule: stdout_text.induct) simp_all

lemma fmt_c_ascii [simp]: "fmt_c 121 = ''y''" "fmt_c 110 = ''n''" "fmt_c 63 = ''?''"
  "fmt_c 97 = ''a''" "fmt_c 98 = ''b''" "fmt_c 99 = ''c''"
  by (simp_all add: fmt_c_def char_of_def)

lemma New_yn:
  "New ascii ''Delete File'' yn [] =
     (Some \<lparr> prompt = ''Delete File'', validResps = yn, hasDflt = False, dflt = 0,
              maxReprompts = 0, limitPrompts = False, fd = 0, indent = 0, indentFirst = 0 \<rparr>, None)"
  "New ascii ''Delete File'' yn [SetDefault 121] =
     (Some \<lparr> prompt = ''Delete File'', validResps = yn, hasDflt = True, dflt = 121,
              maxReprompts = 0, limitPrompts = False, fd = 0, indent = 0, indentFirst = 0 \<rparr>, None)"
  "New ascii ''Delete File'' yn [SetMaxReprompts 2] =
     (Some \<lparr> prompt = ''Delete File'', validResps = yn, hasDflt = False, dflt = 0,
              maxReprompts = 2, limitPrompts = True, fd = 0, indent = 0, indentFirst = 0 \<rparr>, None)"
  by (simp_all add: New_def len_def keys_def yn_def ascii_def helpRune_def
        SetDefault_def SetMaxReprompts_def)

lemma example_state_fields [simp]:
  "stdin (example_state opts reads) = shift reads closed"
  "trace (example_state opts reads) = []"
  by (simp_all add: example_state_def)

lemma example_resp [simp]:
  "resp (example_state [] reads) =
     \<lparr> prompt = ''Delete File'', validResps = yn, hasDflt = False, dflt = 0,
       maxReprompts = 0, limitPrompts = False, fd = 0, indent = 0, indentFirst = 0 \<rparr>"
  "resp (example_state [SetDefault 121] reads) =
     \<lparr> prompt = ''Delete File'', validResps = yn, hasDflt = True, dflt = 121,
       maxReprompts = 0, limitPrompts = False, fd = 0, indent = 0, indentFirst = 0 \<rparr>"
  "resp (example_state [SetMaxReprompts 2] reads) =
     \<lparr> prompt = ''Delete File'', validResps = yn, hasDflt = False, dflt = 0,
       maxReprompts = 2, limitPrompts = True, fd = 0, indent = 0, indentFirst = 0 \<rparr>"
  by (simp_all add: example_state_def New_yn)

lemma valid_config_example:
  "valid_config ascii (resp (example_state [] reads))"
  "valid_config ascii (resp (example_state [SetDefault 121] reads))"
  "valid_config ascii (resp (example_state [SetMaxReprompts 2] reads))"
proof -
  have "\<forall>opt \<in> set []. pkg_opt opt" by simp
  with New_yn(1) show "valid_config ascii (resp (example_state [] reads))"
    unfolding valid_config_def example_resp by blast
  have "\<forall>opt \<in> set [SetDefault 121]. pkg_opt opt" by (simp add: pkg_opt.intros)
  with New_yn(2) show "valid_config ascii (resp (example_state [SetDefault 121] reads))"
    unfolding valid_config_def example_resp by blast
  have "\<forall>opt \<in> set [SetMaxReprompts 2]. pkg_opt opt" by (simp add: pkg_opt.intros)
  with New_yn(3) show "valid_config ascii (resp (example_state [SetMaxReprompts 2] reads))"
    unfolding valid_config_def example_resp by blast
qed

text \<open>The prompt of the example without a default and with the default \<^verbatim>\<open>y\<close>.\<close>

lemma PrintPrompt_no_default:
  "prompt (resp s) = ''Delete File'' \<Longrightarrow> validResps (resp s) = yn \<Longrightarrow> \<not> hasDflt (resp s) \<Longrightarrow>
   trace (PrintPrompt s) = trace s @
     [Stdout ''Delete File'', Stdout ''? '', Stdout ''('', Stdout ''n'', Stdout ''/y'',
      Stdout ''/?): '']"
  by (simp add: PrintPrompt_def PrintValidResponses_def getSortedValidResponses_def keys_def
        yn_def helpRune_def Print_def)

lemma PrintPrompt_default_y:
  "prompt (resp s) = ''Delete File'' \<Longrightarrow> validResps (resp s) = yn \<Longrightarrow> hasDflt (resp s) \<Longrightarrow>
   dflt (resp s) = 121 \<Longrightarrow>
   trace (PrintPrompt s) = trace s @
     [Stdout ''Delete File'', Stdout ''? '', Stdout ''('', Stdout ''[y]'', Stdout ''/n'',
      Stdout ''/?): '']"
  by (simp add: PrintPrompt_def PrintValidResponses_def getSortedValidResponses_def keys_def
        yn_def helpRune_def Print_def)

lemma Repeat_0 [simp]: "Repeat x 0 = Some []"
  by (simp add: Repeat_def)

lemma invalid_abc:
  "invalid_char ascii (resp (example_state [SetMaxReprompts 2] reads)) 97"
  "invalid_char ascii (resp (example_state [SetMaxReprompts 2] reads)) 98"
  "invalid_char ascii (resp (example_state [SetMaxReprompts 2] reads)) 99"
  by (simp_all add: invalid_char_def ascii_def helpRune_def yn_def)

lemma ToLower_ascii_lower [simp]: "ToLower ascii 97 = 97" "ToLower ascii 98 = 98"
  "ToLower ascii 99 = 99" "ToLower ascii 121 = 121" "ToLower ascii 89 = 121"
  by (simp_all add: ascii_def)

subsection \<open>The retry limit\<close>

text \<open>
  Claim C1, as the code has it. With a limit of two reprompts and three invalid characters
  read in a row, the call prints the prompt three times, reports the first two bad
  responses on standard error, and returns after the third read. The error it returns is
  the bad-response error of the third read; the package has no error of its own for the
  exhausted limit.
\<close>

theorem exhausted_returns_last_bad_response:
  assumes "limitPrompts (resp s)" and "maxReprompts (resp s) = 2"
    and "stdin s = (c1, None) ## (c2, None) ## (c3, None) ## rest"
    and "invalid_char U (resp s) c1" and "invalid_char U (resp s) c2"
    and "invalid_char U (resp s) c3"
    and "Repeat '' '' first = Some p1" and "Repeat '' '' second = Some p2"
  shows "GetResponseIndent U first second s =
         Some (Returns (ReplacementChar, Some (BadResponse (ToLower U c3))),
           (PrintPrompt (Print p2
              (Eprintln (p2 @ ''    '' @ Error (BadResponse (ToLower U c2))) (Eprintln []
                (PrintPrompt (Print p2
                  (Eprintln (p2 @ ''    '' @ Error (BadResponse (ToLower U c1))) (Eprintln []
                    (PrintPrompt (Print p1 s))))))))))\<lparr>stdin := rest\<rparr>)"
  unfolding GetResponseIndent_def assms(7,8)
  by (simp add: three_invalid_reads [OF assms(1-6)] del: Error.simps)

theorem exhausted_returns_last_bad_response_witness:
  "map_option (\<lambda>(res, s'). (res, stdout_text (trace s'), stdin s'))
     (GetResponse ascii (example_state [SetMaxReprompts 2] [(97, None), (98, None), (99, None)])) =
   Some (Returns (ReplacementChar, Some (BadResponse 99)),
         ''Delete File? (n/y/?): Delete File? (n/y/?): Delete File? (n/y/?): '', closed)"
proof -
  let ?s = "example_state [SetMaxReprompts 2] [(97, None), (98, None), (99, None)]"
  have "limitPrompts (resp ?s)" and "maxReprompts (resp ?s) = 2"
    and "stdin ?s = (97, None) ## (98, None) ## (99, None) ## closed"
    by simp_all
  from exhausted_returns_last_bad_response [OF this invalid_abc Repeat_0 Repeat_0]
  show ?thesis
    by (simp add: GetResponse_def PrintPrompt_no_default del: Error.simps)
qed

text \<open>
  Claim C1 as stated fails: for the responses \<^verbatim>\<open>y\<close> and \<^verbatim>\<open>n\<close>, a limit of two reprompts and
  the reads \<^verbatim>\<open>a\<close>, \<^verbatim>\<open>b\<close>, \<^verbatim>\<open>c\<close>, the error returned is the very error that the read
  of \<^verbatim>\<open>c\<close> alone produces, with the message \<^verbatim>\<open>Bad response: c\<close>.
\<close>

theorem exhausted_error_is_last_attempt_error:
  "map_option fst
     (GetResponse ascii (example_state [SetMaxReprompts 2] [(97, None), (98, None), (99, None)])) =
   Some (Returns (ReplacementChar, Some (BadResponse 99))) \<and>
   fst (getResp ascii (example_state [SetMaxReprompts 2] [(99, None)])) =
     (ReplacementChar, Some (BadResponse 99)) \<and>
   Error (BadResponse 99) = ''Bad response: c''"
proof -
  let ?s = "example_state [SetMaxReprompts 2] [(97, None), (98, None), (99, None)]"
  have "limitPrompts (resp ?s)" and "maxReprompts (resp ?s) = 2"
    and "stdin ?s = (97, None) ## (98, None) ## (99, None) ## closed"
    by simp_all
  from three_invalid_reads [OF this invalid_abc, of 0 "[]" "[]"]
  have "map_option fst (GetResponse ascii ?s) = Some (Returns (ReplacementChar, Some (BadResponse 99)))"
    by (simp add: GetResponse_def GetResponseIndent_def del: Error.simps)
  moreover have "fst (getResp ascii (example_state [SetMaxReprompts 2] [(99, None)])) =
      (ReplacementChar, Some (BadResponse 99))"
    using getResp_invalid_char [OF _ invalid_abc(3), of "[(99, None)]"] by simp
  ultimately show ?thesis by simp
qed

subsection \<open>What holds of every run of the loop that returns\<close>

lemma getResp_error_rune: "getResp U s = ((c, Some e), s') \<Longrightarrow> c = ReplacementChar"
  by (cases "shd (stdin s)") (auto simp: getResp_def getRune_def Let_def split: if_splits)

lemma getResp_accepted_key:
  assumes "getResp U s = ((c, None), s')" "c \<noteq> helpRune" "valid_config U (resp s)"
  shows "c \<in> dom (map_of (validResps (resp s)))"
  using assms valid_config_dflt [of U "resp s"]
  by (cases "shd (stdin s)") (auto simp: getResp_def getRune_def Let_def split: if_splits)

lemma getResp_resp: "getResp U s = (res, s') \<Longrightarrow> resp s' = resp s"
  using getResp_state [of U s] by simp

lemma response_loop_error_rune:
  "response_loop U second prefix secondPrefix i s = Some y \<Longrightarrow>
   \<forall>c e i' s'. y = ((c, Some e), i', s') \<longrightarrow> c = ReplacementChar"
proof (induction rule: response_loop.raw_induct [rotated 1, consumes 1])
  case (1 loop U second prefix secondPrefix i s y)
  then show ?case
    by (auto split: prod.splits if_splits option.splits dest: getResp_error_rune)
qed

lemma response_loop_resp:
  "response_loop U second prefix secondPrefix i s = Some y \<Longrightarrow> resp (snd (snd y)) = resp s"
proof (induction rule: response_loop.raw_induct [rotated 1, consumes 1])
  case (1 loop U second prefix secondPrefix i s y)
  obtain c err s1 where g: "getResp U (PrintPrompt (Print prefix s)) = ((c, err), s1)"
    by (metis prod.exhaust)
  then have r1: "resp s1 = resp s" by (auto dest: getResp_resp)
  show ?case
  proof (cases "c = helpRune")
    case True
    with 1(2) g have "loop U second secondPrefix secondPrefix i (PrintHelpIndent second s1) = Some y"
      by simp
    from 1(1) [OF this] r1 show ?thesis by simp
  next
    case False
    show ?thesis
    proof (cases "loop U second secondPrefix secondPrefix (incr i)
        (Eprintln (secondPrefix @ ''    '' @ (case err of Some e \<Rightarrow> Error e | None \<Rightarrow> []))
           (Eprintln [] s1)) = Some y")
      case True
      from 1(1) [OF this] r1 show ?thesis by simp
    next
      case notrec: False
      with 1(2) g False have "y = ((c, err), incr i, s1)"
        by (auto split: option.splits if_splits)
      with r1 show ?thesis by simp
    qed
  qed
qed

lemma response_loop_accepted_key:
  "response_loop U second prefix secondPrefix i s = Some y \<Longrightarrow>
   valid_config U (resp s) \<Longrightarrow> y = ((c, None), i', s') \<Longrightarrow>
   c \<in> dom (map_of (validResps (resp s))) \<and> c \<noteq> helpRune"
proof (induction arbitrary: c i' s' rule: response_loop.raw_induct [rotated 1, consumes 1])
  case (1 loop U second prefix secondPrefix i s y)
  obtain c0 err s1 where g: "getResp U (PrintPrompt (Print prefix s)) = ((c0, err), s1)"
    by (metis prod.exhaust)
  then have r1: "resp s1 = resp s" by (auto dest: getResp_resp)
  show ?case
  proof (cases "c0 = helpRune")
    case True
    with 1(2) g have "loop U second secondPrefix secondPrefix i (PrintHelpIndent second s1) = Some y"
      by simp
    from 1(1) [OF this _ 1(4)] r1 1(3) show ?thesis by simp
  next
    case False
    show ?thesis
    proof (cases "loop U second secondPrefix secondPrefix (incr i)
        (Eprintln (secondPrefix @ ''    '' @ (case err of Some e \<Rightarrow> Error e | None \<Rightarrow> []))
           (Eprintln [] s1)) = Some y")
      case True
      from 1(1) [OF this _ 1(4)] r1 1(3) show ?thesis by simp
    next
      case notrec: False
      with 1(2) g False have "y = ((c0, err), incr i, s1)"
        by (auto split: option.splits if_splits)
      with 1(4) have "c0 = c" "err = None" by simp_all
      with g False 1(3) getResp_accepted_key [of U "PrintPrompt (Print prefix s)" c s1]
      show ?thesis by simp
    qed
  qed
qed

subsection \<open>The entry points\<close>

lemma Repeat_nonneg: "0 \<le> n \<Longrightarrow> Repeat x n = Some (concat (replicate (nat n) x))"
  by (simp add: Repeat_def)

lemma GetResponse_valid_config:
  "valid_config U (resp s) \<Longrightarrow>
   GetResponse U s =
     map_option (\<lambda>(res, i, s'). (Returns res, s'))
       (response_loop U (indent (resp s))
          (concat (replicate (nat (indentFirst (resp s))) '' ''))
          (concat (replicate (nat (indent (resp s))) '' '')) 0 s)"
  using valid_config_indents [of U "resp s"]
  by (simp add: GetResponse_def GetResponseIndent_def Repeat_nonneg)

subsection \<open>End of input and other read errors\<close>

text \<open>
  Claim C3. A read that reports \<^verbatim>\<open>io.EOF\<close> ends the loop on that turn, whatever the counter
  and the limit are: the result is U+FFFD with \<^verbatim>\<open>io.EOF\<close>, and the state shows the one
  prompt of that turn and the one read, nothing more. So it is for \<^verbatim>\<open>GetResponseIndent\<close>
  (with indents that \<^verbatim>\<open>strings.Repeat\<close> accepts) and for \<^verbatim>\<open>GetResponse\<close> on a valid
  configuration when the first read is at the end of input. A read error other than
  \<^verbatim>\<open>io.EOF\<close> takes the same path as an invalid character: the call returns it if the limit
  is exceeded, else it is reported on standard error and the loop goes on with the counter
  incremented.
\<close>

theorem end_of_input_returns_at_once:
  "(shd (stdin s) = (c, Some EOF) \<longrightarrow>
      response_loop U second prefix secondPrefix i s =
        Some ((ReplacementChar, Some EOF), incr i,
              (PrintPrompt (Print prefix s))\<lparr>stdin := stl (stdin s)\<rparr>)) \<and>
   (shd (stdin s) = (c, Some EOF) \<longrightarrow>
    Repeat '' '' first = Some p1 \<longrightarrow> Repeat '' '' second = Some p2 \<longrightarrow>
      GetResponseIndent U first second s =
        Some (Returns (ReplacementChar, Some EOF),
              (PrintPrompt (Print p1 s))\<lparr>stdin := stl (stdin s)\<rparr>)) \<and>
   (shd (stdin s) = (c, Some EOF) \<longrightarrow> valid_config U (resp s) \<longrightarrow>
      GetResponse U s =
        Some (Returns (ReplacementChar, Some EOF),
              (PrintPrompt (Print (concat (replicate (nat (indentFirst (resp s))) '' '')) s))
                \<lparr>stdin := stl (stdin s)\<rparr>)) \<and>
   (e \<noteq> EOF \<longrightarrow>
    shd (stdin s) = (c, Some e) \<or>
    shd (stdin s) = (c, None) \<and> invalid_char U (resp s) c \<and> e = BadResponse (ToLower U c) \<longrightarrow>
      response_loop U second prefix secondPrefix i s =
        (if limitPrompts (resp s) \<and> maxReprompts (resp s) < incr i
         then Some ((ReplacementChar, Some e), incr i,
                    (PrintPrompt (Print prefix s))\<lparr>stdin := stl (stdin s)\<rparr>)
         else response_loop U second secondPrefix secondPrefix (incr i)
                ((Eprintln (secondPrefix @ ''    '' @ Error e)
                   (Eprintln [] (PrintPrompt (Print prefix s))))\<lparr>stdin := stl (stdin s)\<rparr>)))"
proof (intro conjI impI)
  assume eof: "shd (stdin s) = (c, Some EOF)"
  show "response_loop U second prefix secondPrefix i s =
        Some ((ReplacementChar, Some EOF), incr i,
              (PrintPrompt (Print prefix s))\<lparr>stdin := stl (stdin s)\<rparr>)"
    by (rule turn_eof [OF eof])
next
  assume eof: "shd (stdin s) = (c, Some EOF)"
    and "Repeat '' '' first = Some p1" "Repeat '' '' second = Some p2"
  then show "GetResponseIndent U first second s =
        Some (Returns (ReplacementChar, Some EOF),
              (PrintPrompt (Print p1 s))\<lparr>stdin := stl (stdin s)\<rparr>)"
    by (simp add: GetResponseIndent_def turn_eof [OF eof])
next
  assume eof: "shd (stdin s) = (c, Some EOF)" and "valid_config U (resp s)"
  then show "GetResponse U s =
        Some (Returns (ReplacementChar, Some EOF),
              (PrintPrompt (Print (concat (replicate (nat (indentFirst (resp s))) '' '')) s))
                \<lparr>stdin := stl (stdin s)\<rparr>)"
    by (simp add: GetResponse_valid_config turn_eof [OF eof])
next
  assume ne: "e \<noteq> EOF"
    and "shd (stdin s) = (c, Some e) \<or>
      shd (stdin s) = (c, None) \<and> invalid_char U (resp s) c \<and> e = BadResponse (ToLower U c)"
  then have "fst (getResp U s) = (ReplacementChar, Some e)"
    by (auto simp: getResp_read_error getResp_invalid_char)
  from turn_error [OF this ne]
  show "response_loop U second prefix secondPrefix i s =
        (if limitPrompts (resp s) \<and> maxReprompts (resp s) < incr i
         then Some ((ReplacementChar, Some e), incr i,
                    (PrintPrompt (Print prefix s))\<lparr>stdin := stl (stdin s)\<rparr>)
         else response_loop U second secondPrefix secondPrefix (incr i)
                ((Eprintln (secondPrefix @ ''    '' @ Error e)
                   (Eprintln [] (PrintPrompt (Print prefix s))))\<lparr>stdin := stl (stdin s)\<rparr>))" .
qed

theorem end_of_input_returns_at_once_witness:
  "map_option (\<lambda>(res, s'). (res, stdout_text (trace s'), stdin s'))
     (GetResponse ascii (example_state [SetMaxReprompts 2] [(0, Some EOF), (121, None)])) =
     Some (Returns (ReplacementChar, Some EOF), ''Delete File? (n/y/?): '', (121, None) ## closed) \<and>
   map_option (\<lambda>(res, s'). (res, stdout_text (trace s'), stdin s'))
     (GetResponseIndent ascii 0 0 (example_state [SetMaxReprompts 2] [(0, Some EOF), (121, None)])) =
     Some (Returns (ReplacementChar, Some EOF), ''Delete File? (n/y/?): '', (121, None) ## closed) \<and>
   map_option (\<lambda>(res, i, s'). (res, i))
     (response_loop ascii 0 [] [] 2
        (example_state [SetMaxReprompts 2] [(0, Some (ReadError ''broken pipe'')), (121, None)])) =
     Some ((ReplacementChar, Some (ReadError ''broken pipe'')), 3) \<and>
   map_option (\<lambda>(res, i, s'). (res, i))
     (response_loop ascii 0 [] [] 2
        (example_state [SetMaxReprompts 2] [(97, None), (121, None)])) =
     Some ((ReplacementChar, Some (BadResponse 97)), 3)"
proof -
  let ?s = "example_state [SetMaxReprompts 2] [(0, Some EOF), (121, None)]"
  let ?t = "example_state [SetMaxReprompts 2] [(0, Some (ReadError ''broken pipe'')), (121, None)]"
  let ?u = "example_state [SetMaxReprompts 2] [(97, None), (121, None)]"
  have s: "shd (stdin ?s) = (0, Some EOF)" by simp
  have t: "ReadError ''broken pipe'' \<noteq> EOF" "shd (stdin ?t) = (0, Some (ReadError ''broken pipe''))"
    by simp_all
  have u: "BadResponse (ToLower ascii 97) \<noteq> EOF" "shd (stdin ?u) = (97, None)"
    by simp_all
  have u': "invalid_char ascii (resp ?u) 97"
    by (rule invalid_abc)
  note thm_s = end_of_input_returns_at_once [of ?s 0 ascii 0 "[]" "[]" 0 0 "[]" "[]"]
  note thm_t = end_of_input_returns_at_once
    [of ?t 0 ascii 0 "[]" "[]" 2 0 "[]" "[]" "ReadError ''broken pipe''"]
  note thm_u = end_of_input_returns_at_once
    [of ?u 97 ascii 0 "[]" "[]" 2 0 "[]" "[]" "BadResponse (ToLower ascii 97)"]
  have "GetResponse ascii ?s = Some (Returns (ReplacementChar, Some EOF),
      (PrintPrompt (Print [] ?s))\<lparr>stdin := (121, None) ## closed\<rparr>)"
    using thm_s s valid_config_example(3) [of "[(0, Some EOF), (121, None)]"] by simp
  moreover have "GetResponseIndent ascii 0 0 ?s = Some (Returns (ReplacementChar, Some EOF),
      (PrintPrompt (Print [] ?s))\<lparr>stdin := (121, None) ## closed\<rparr>)"
    using thm_s s by simp
  moreover have "response_loop ascii 0 [] [] 2 ?t =
      Some ((ReplacementChar, Some (ReadError ''broken pipe'')), 3,
            (PrintPrompt (Print [] ?t))\<lparr>stdin := (121, None) ## closed\<rparr>)"
    using thm_t t by simp
  moreover have "response_loop ascii 0 [] [] 2 ?u =
      Some ((ReplacementChar, Some (BadResponse 97)), 3,
            (PrintPrompt (Print [] ?u))\<lparr>stdin := (121, None) ## closed\<rparr>)"
    using thm_u u u' [simplified] by simp
  ultimately show ?thesis
    by (simp add: PrintPrompt_no_default)
qed

subsection \<open>From the loop to the entry points\<close>

lemma GetResponseIndent_loop:
  "GetResponseIndent U first second s = Some (Returns res, s') \<Longrightarrow>
   \<exists>p1 p2 i. response_loop U second p1 p2 0 s = Some (res, i, s')"
  by (auto simp: GetResponseIndent_def split: option.splits)

lemma GetResponseIndent_resp:
  "GetResponseIndent U first second s = Some (out, s') \<Longrightarrow> resp s' = resp s"
  by (auto simp: GetResponseIndent_def split: option.splits dest: response_loop_resp)

lemma GetResponse_accepts:
  assumes "valid_config U (resp s)" "fst (getResp U s) = (v, None)" "v \<noteq> helpRune"
  shows "GetResponse U s =
         Some (Returns (v, None),
               (PrintPrompt (Print (concat (replicate (nat (indentFirst (resp s))) '' '')) s))
                 \<lparr>stdin := stl (stdin s)\<rparr>)"
  by (simp add: GetResponse_valid_config [OF assms(1)] turn_accept [OF assms(2,3)])

lemma getResp_fst_default:
  "shd (stdin s) = (c, None) \<Longrightarrow> hasDflt (resp s) \<Longrightarrow> IsSpace U c \<Longrightarrow>
   fst (getResp U s) = (dflt (resp s), None)"
  by (simp add: getResp_default)

lemma getResp_fst_valid:
  "shd (stdin s) = (c, None) \<Longrightarrow> \<not> (hasDflt (resp s) \<and> IsSpace U c) \<Longrightarrow> c \<noteq> helpRune \<Longrightarrow>
   map_of (validResps (resp s)) (ToLower U c) = Some d \<Longrightarrow>
   fst (getResp U s) = (ToLower U c, None)"
  by (simp add: getResp_valid)

lemma getResp_fst_help:
  "shd (stdin s) = (helpRune, None) \<Longrightarrow> \<not> (hasDflt (resp s) \<and> IsSpace U helpRune) \<Longrightarrow>
   fst (getResp U s) = (helpRune, None)"
  by (simp add: getResp_help)

lemma ascii_space [simp]: "IsSpace ascii 32" "\<not> IsSpace ascii 63" "\<not> IsSpace ascii 89"
  "\<not> IsSpace ascii 121" "\<not> IsSpace ascii helpRune"
  by (simp_all add: ascii_def helpRune_def)

lemma yn_lookup [simp]: "map_of yn 121 = Some ''delete the file''"
  "map_of yn 110 = Some ''leave the file alone''"
  by (simp_all add: yn_def)

lemma dom_yn [simp]: "dom (map_of yn) = {121, 110}"
  by (auto simp: yn_def split: if_splits)

subsection \<open>The configuration is read only\<close>

text \<open>
  Claim C8. None of \<^verbatim>\<open>PrintPrompt\<close>, \<^verbatim>\<open>PrintValidResponses\<close>, \<^verbatim>\<open>PrintHelp\<close>,
  \<^verbatim>\<open>PrintHelpIndent\<close>, \<^verbatim>\<open>GetResponseIndent\<close> and \<^verbatim>\<open>GetResponse\<close> changes the responder:
  the prompt, the response map, the default, the retry limit and the indents after the call
  are those before it.
\<close>

theorem configuration_not_mutated:
  "resp (PrintPrompt s) = resp s \<and>
   resp (PrintValidResponses s) = resp s \<and>
   resp (PrintHelp s) = resp s \<and>
   resp (PrintHelpIndent ind s) = resp s \<and>
   (GetResponseIndent U first second s = Some (out, s') \<longrightarrow> resp s' = resp s) \<and>
   (GetResponse U s = Some (out, s') \<longrightarrow> resp s' = resp s)"
  by (auto simp: GetResponse_def dest: GetResponseIndent_resp)

theorem configuration_not_mutated_witness:
  "GetResponse ascii (example_state [SetDefault 121] [(32, None)]) =
     Some (Returns (121, None),
           (PrintPrompt (Print [] (example_state [SetDefault 121] [(32, None)])))\<lparr>stdin := closed\<rparr>) \<and>
   GetResponseIndent ascii 0 0 (example_state [SetDefault 121] [(32, None)]) =
     Some (Returns (121, None),
           (PrintPrompt (Print [] (example_state [SetDefault 121] [(32, None)])))\<lparr>stdin := closed\<rparr>) \<and>
   resp ((PrintPrompt (Print [] (example_state [SetDefault 121] [(32, None)])))\<lparr>stdin := closed\<rparr>) =
     resp (example_state [SetDefault 121] [(32, None)])"
proof -
  let ?s = "example_state [SetDefault 121] [(32, None)]"
  have "fst (getResp ascii ?s) = (121, None)"
    using getResp_fst_default [of ?s 32 ascii] by simp
  then have g: "GetResponse ascii ?s =
      Some (Returns (121, None), (PrintPrompt (Print [] ?s))\<lparr>stdin := closed\<rparr>)"
    using GetResponse_accepts [OF valid_config_example(2), of "[(32, None)]" 121]
    by (simp add: helpRune_def)
  then have gi: "GetResponseIndent ascii 0 0 ?s =
      Some (Returns (121, None), (PrintPrompt (Print [] ?s))\<lparr>stdin := closed\<rparr>)"
    by (simp add: GetResponse_def)
  from configuration_not_mutated
    [of ?s 0 ascii 0 0 "Returns (121, None)" "(PrintPrompt (Print [] ?s))\<lparr>stdin := closed\<rparr>"]
    g gi
  show ?thesis by blast
qed

subsection \<open>What a call returns\<close>

text \<open>
  Claim C9. On a valid configuration, a rune returned with a \<^verbatim>\<open>nil\<close> error is a key of the
  map of valid responses, and it is never the help character.
\<close>

theorem accepted_response_is_valid_key:
  assumes "valid_config U (resp s)"
  shows "(GetResponseIndent U first second s = Some (Returns (c, None), s') \<longrightarrow>
            c \<in> dom (map_of (validResps (resp s))) \<and> c \<noteq> helpRune) \<and>
         (GetResponse U s = Some (Returns (c, None), s') \<longrightarrow>
            c \<in> dom (map_of (validResps (resp s))) \<and> c \<noteq> helpRune)"
  using assms
  by (auto simp: GetResponse_def dest!: GetResponseIndent_loop
           dest: response_loop_accepted_key)

theorem accepted_response_is_valid_key_witness:
  "valid_config ascii (resp (example_state [] [(89, None)])) \<and>
   GetResponse ascii (example_state [] [(89, None)]) =
     Some (Returns (121, None),
           (PrintPrompt (Print [] (example_state [] [(89, None)])))\<lparr>stdin := closed\<rparr>) \<and>
   GetResponseIndent ascii 0 0 (example_state [] [(89, None)]) =
     Some (Returns (121, None),
           (PrintPrompt (Print [] (example_state [] [(89, None)])))\<lparr>stdin := closed\<rparr>) \<and>
   121 \<in> dom (map_of (validResps (resp (example_state [] [(89, None)])))) \<and> 121 \<noteq> helpRune"
proof -
  let ?s = "example_state [] [(89, None)]"
  have v: "valid_config ascii (resp ?s)" by (rule valid_config_example)
  have "fst (getResp ascii ?s) = (121, None)"
    using getResp_fst_valid [of ?s 89 ascii "''delete the file''"] by (simp add: helpRune_def)
  then have g: "GetResponse ascii ?s =
      Some (Returns (121, None), (PrintPrompt (Print [] ?s))\<lparr>stdin := closed\<rparr>)"
    using GetResponse_accepts [OF v, of 121] by (simp add: helpRune_def)
  then have gi: "GetResponseIndent ascii 0 0 ?s =
      Some (Returns (121, None), (PrintPrompt (Print [] ?s))\<lparr>stdin := closed\<rparr>)"
    by (simp add: GetResponse_def)
  from accepted_response_is_valid_key [OF v, of 0 0 121
      "(PrintPrompt (Print [] ?s))\<lparr>stdin := closed\<rparr>"] v g gi
  show ?thesis by blast
qed

text \<open>
  Claim C10. A rune returned together with an error, whichever error it is, is
  \<^verbatim>\<open>unicode.ReplacementChar\<close>.
\<close>

theorem error_comes_with_replacement_char:
  "(GetResponseIndent U first second s = Some (Returns (c, Some e), s') \<longrightarrow> c = ReplacementChar) \<and>
   (GetResponse U s = Some (Returns (c, Some e), s') \<longrightarrow> c = ReplacementChar)"
  by (auto simp: GetResponse_def dest!: GetResponseIndent_loop dest: response_loop_error_rune)

theorem error_comes_with_replacement_char_witness:
  "GetResponse ascii (example_state [] [(110, Some EOF)]) =
     Some (Returns (65533, Some EOF),
           (PrintPrompt (Print [] (example_state [] [(110, Some EOF)])))\<lparr>stdin := closed\<rparr>) \<and>
   GetResponseIndent ascii 0 0 (example_state [] [(110, Some EOF)]) =
     Some (Returns (65533, Some EOF),
           (PrintPrompt (Print [] (example_state [] [(110, Some EOF)])))\<lparr>stdin := closed\<rparr>) \<and>
   65533 = ReplacementChar"
proof -
  let ?s = "example_state [] [(110, Some EOF)]"
  have "response_loop ascii 0 [] [] 0 ?s =
      Some ((ReplacementChar, Some EOF), 1, (PrintPrompt (Print [] ?s))\<lparr>stdin := closed\<rparr>)"
    using turn_eof [of ?s 110 ascii 0 "[]" "[]" 0] by simp
  then have gi: "GetResponseIndent ascii 0 0 ?s =
      Some (Returns (65533, Some EOF), (PrintPrompt (Print [] ?s))\<lparr>stdin := closed\<rparr>)"
    by (simp add: GetResponseIndent_def ReplacementChar_def)
  then have g: "GetResponse ascii ?s =
      Some (Returns (65533, Some EOF), (PrintPrompt (Print [] ?s))\<lparr>stdin := closed\<rparr>)"
    by (simp add: GetResponse_def)
  from error_comes_with_replacement_char
    [of ascii 0 0 ?s 65533 EOF "(PrintPrompt (Print [] ?s))\<lparr>stdin := closed\<rparr>"] g gi
  show ?thesis by blast
qed

subsection \<open>The help character\<close>

lemma help_rounds_fields [simp]:
  "resp (help_rounds n second prefix secondPrefix s) = resp s"
  "stdin (help_rounds n second prefix secondPrefix s) = stdin s"
  by (induction n arbitrary: prefix s) simp_all

lemma help_rounds_stdin_update [simp]:
  "help_rounds n second prefix secondPrefix (s\<lparr>stdin := t\<rparr>) =
   (help_rounds n second prefix secondPrefix s)\<lparr>stdin := t\<rparr>"
  by (induction n arbitrary: prefix s) simp_all

lemma helps_then:
  assumes "stdin s = shift (replicate n (helpRune, None)) rest"
    and "\<not> (hasDflt (resp s) \<and> IsSpace U helpRune)"
  shows "response_loop U second prefix secondPrefix i s =
         response_loop U second (if n = 0 then prefix else secondPrefix) secondPrefix i
           ((help_rounds n second prefix secondPrefix s)\<lparr>stdin := rest\<rparr>)"
  using assms
proof (induction n arbitrary: prefix s)
  case 0
  then have "s\<lparr>stdin := rest\<rparr> = s" by simp
  then show ?case by simp
next
  case (Suc n)
  let ?s1 = "(PrintHelpIndent second (PrintPrompt (Print prefix s)))
               \<lparr>stdin := shift (replicate n (helpRune, None)) rest\<rparr>"
  from Suc.prems have "fst (getResp U s) = (helpRune, None)"
    by (simp add: getResp_fst_help)
  from turn_help [OF this] Suc.prems(1)
  have "response_loop U second prefix secondPrefix i s =
        response_loop U second secondPrefix secondPrefix i ?s1"
    by simp
  also have "\<dots> = response_loop U second (if n = 0 then secondPrefix else secondPrefix) secondPrefix i
           ((help_rounds n second secondPrefix secondPrefix ?s1)\<lparr>stdin := rest\<rparr>)"
    using Suc.prems(2) by (intro Suc.IH) simp_all
  finally show ?case by simp
qed

text \<open>
  Claim C2. On a valid configuration, when the reads are \<open>n\<close> help characters and then a
  valid response, for any \<open>n\<close>, the loop started with the counter at 0 returns that response
  with the counter at 1: each help character makes the loop print the prompt and the help
  text and go round again with the counter unchanged. The hypothesis on the Unicode table
  is that \<^verbatim>\<open>?\<close> is no whitespace.
\<close>

theorem help_does_not_count:
  assumes "valid_config U (resp s)" and "\<not> IsSpace U helpRune"
    and "stdin s = shift (replicate n (helpRune, None)) ((c, None) ## rest)"
    and "hasDflt (resp s) \<and> IsSpace U c \<and> v = dflt (resp s) \<or>
         \<not> (hasDflt (resp s) \<and> IsSpace U c) \<and> c \<noteq> helpRune \<and> v = ToLower U c \<and>
         v \<in> dom (map_of (validResps (resp s)))"
  shows "response_loop U second prefix secondPrefix 0 s =
           Some ((v, None), 1,
                 (PrintPrompt (Print (if n = 0 then prefix else secondPrefix)
                    (help_rounds n second prefix secondPrefix s)))\<lparr>stdin := rest\<rparr>) \<and>
         (Repeat '' '' first = Some p1 \<longrightarrow> Repeat '' '' second = Some p2 \<longrightarrow>
          GetResponseIndent U first second s =
            Some (Returns (v, None),
                  (PrintPrompt (Print (if n = 0 then p1 else p2)
                     (help_rounds n second p1 p2 s)))\<lparr>stdin := rest\<rparr>))"
proof -
  have "v \<in> dom (map_of (validResps (resp s)))"
    using assms(1,4) valid_config_dflt [of U "resp s"] by auto
  from valid_config_keys [OF assms(1) this] have v: "v \<noteq> helpRune"
    by simp
  have loop: "response_loop U second p q 0 s =
           Some ((v, None), 1,
                 (PrintPrompt (Print (if n = 0 then p else q)
                    (help_rounds n second p q s)))\<lparr>stdin := rest\<rparr>)" for p q
  proof -
    let ?s1 = "(help_rounds n second p q s)\<lparr>stdin := (c, None) ## rest\<rparr>"
    from assms(4) have g: "fst (getResp U ?s1) = (v, None)"
      by (auto simp: getResp_fst_default getResp_fst_valid)
    have "response_loop U second p q 0 s =
          response_loop U second (if n = 0 then p else q) q 0 ?s1"
      using assms(2,3) by (intro helps_then) simp_all
    also have "\<dots> = Some ((v, None), incr 0,
        (PrintPrompt (Print (if n = 0 then p else q) ?s1))\<lparr>stdin := stl (stdin ?s1)\<rparr>)"
      by (rule turn_accept [OF g v])
    finally show ?thesis by simp
  qed
  show ?thesis
    by (simp add: loop GetResponseIndent_def)
qed

theorem help_does_not_count_witness:
  "map_option (\<lambda>(res, i, s'). (res, i, stdin s'))
     (response_loop ascii 0 [] [] 0
        (example_state [SetDefault 121] [(63, None), (63, None), (89, None), (110, None)])) =
     Some ((121, None), 1, (110, None) ## closed) \<and>
   map_option (\<lambda>(res, s'). (res, stdin s'))
     (GetResponseIndent ascii 0 0
        (example_state [SetDefault 121] [(63, None), (63, None), (89, None), (110, None)])) =
     Some (Returns (121, None), (110, None) ## closed)"
proof -
  let ?s = "example_state [SetDefault 121] [(63, None), (63, None), (89, None), (110, None)]"
  have a: "valid_config ascii (resp ?s)" by (rule valid_config_example)
  have b: "\<not> IsSpace ascii helpRune" by simp
  have c: "stdin ?s = shift (replicate (Suc (Suc 0)) (helpRune, None)) ((89, None) ## (110, None) ## closed)"
    by (simp add: helpRune_def)
  have d: "hasDflt (resp ?s) \<and> IsSpace ascii 89 \<and> 121 = dflt (resp ?s) \<or>
         \<not> (hasDflt (resp ?s) \<and> IsSpace ascii 89) \<and> 89 \<noteq> helpRune \<and> 121 = ToLower ascii 89 \<and>
         121 \<in> dom (map_of (validResps (resp ?s)))"
    by (simp add: helpRune_def)
  from help_does_not_count [OF a b c d, where second = 0 and prefix = "[]"
      and secondPrefix = "[]" and first = 0 and ?p1.0 = "[]" and ?p2.0 = "[]"]
  show ?thesis by simp
qed

subsection \<open>Whitespace and case\<close>

text \<open>
  Claim C5. On a valid configuration a whitespace character read with a default configured
  is accepted as the default, as it is, on that turn. With no default configured the same
  read is a bad response: it yields U+FFFD and the bad-response error, and the loop counts
  it, returning if the limit is exceeded and reporting it before the next prompt otherwise.
  The hypotheses on the Unicode tables are that \<^verbatim>\<open>?\<close> is no whitespace and that the lower-case
  form of the whitespace character read is whitespace.
\<close>

theorem whitespace_selects_default:
  assumes "valid_config U (resp s)" and "shd (stdin s) = (c, None)" and "IsSpace U c"
  shows "(hasDflt (resp s) \<longrightarrow>
            fst (getResp U s) = (dflt (resp s), None) \<and>
            response_loop U second prefix secondPrefix i s =
              Some ((dflt (resp s), None), incr i,
                    (PrintPrompt (Print prefix s))\<lparr>stdin := stl (stdin s)\<rparr>) \<and>
            GetResponse U s =
              Some (Returns (dflt (resp s), None),
                    (PrintPrompt (Print (concat (replicate (nat (indentFirst (resp s))) '' '')) s))
                      \<lparr>stdin := stl (stdin s)\<rparr>)) \<and>
         (\<not> hasDflt (resp s) \<longrightarrow> \<not> IsSpace U helpRune \<longrightarrow> IsSpace U (ToLower U c) \<longrightarrow>
            fst (getResp U s) = (ReplacementChar, Some (BadResponse (ToLower U c))) \<and>
            response_loop U second prefix secondPrefix i s =
              (if limitPrompts (resp s) \<and> maxReprompts (resp s) < incr i
               then Some ((ReplacementChar, Some (BadResponse (ToLower U c))), incr i,
                          (PrintPrompt (Print prefix s))\<lparr>stdin := stl (stdin s)\<rparr>)
               else response_loop U second secondPrefix secondPrefix (incr i)
                      ((Eprintln (secondPrefix @ ''    '' @ Error (BadResponse (ToLower U c)))
                         (Eprintln [] (PrintPrompt (Print prefix s))))\<lparr>stdin := stl (stdin s)\<rparr>)))"
proof (intro conjI impI)
  assume d: "hasDflt (resp s)"
  from getResp_fst_default [OF assms(2) d assms(3)]
  show g: "fst (getResp U s) = (dflt (resp s), None)" .
  from valid_config_keys [OF assms(1) valid_config_dflt [OF assms(1) d]]
  have h: "dflt (resp s) \<noteq> helpRune" by simp
  from turn_accept [OF g h]
  show "response_loop U second prefix secondPrefix i s =
              Some ((dflt (resp s), None), incr i,
                    (PrintPrompt (Print prefix s))\<lparr>stdin := stl (stdin s)\<rparr>)" .
  from GetResponse_accepts [OF assms(1) g h]
  show "GetResponse U s =
              Some (Returns (dflt (resp s), None),
                    (PrintPrompt (Print (concat (replicate (nat (indentFirst (resp s))) '' '')) s))
                      \<lparr>stdin := stl (stdin s)\<rparr>)" .
next
  assume nd: "\<not> hasDflt (resp s)" and nh: "\<not> IsSpace U helpRune"
    and low: "IsSpace U (ToLower U c)"
  from nh assms(3) have "c \<noteq> helpRune" by auto
  moreover from low valid_config_keys [OF assms(1), of "ToLower U c"]
  have "map_of (validResps (resp s)) (ToLower U c) = None" by auto
  ultimately have "invalid_char U (resp s) c"
    using nd by (simp add: invalid_char_def)
  from getResp_invalid_char [OF assms(2) this]
  show g: "fst (getResp U s) = (ReplacementChar, Some (BadResponse (ToLower U c)))" .
  from turn_error [OF g]
  show "response_loop U second prefix secondPrefix i s =
              (if limitPrompts (resp s) \<and> maxReprompts (resp s) < incr i
               then Some ((ReplacementChar, Some (BadResponse (ToLower U c))), incr i,
                          (PrintPrompt (Print prefix s))\<lparr>stdin := stl (stdin s)\<rparr>)
               else response_loop U second secondPrefix secondPrefix (incr i)
                      ((Eprintln (secondPrefix @ ''    '' @ Error (BadResponse (ToLower U c)))
                         (Eprintln [] (PrintPrompt (Print prefix s))))\<lparr>stdin := stl (stdin s)\<rparr>))"
    by simp
qed

lemma ToLower_ascii_space [simp]: "ToLower ascii 32 = 32" "ToLower ascii 9 = 9"
  by (simp_all add: ascii_def)

theorem whitespace_selects_default_witness:
  "map_option (\<lambda>(res, s'). (res, stdout_text (trace s'), stdin s'))
     (GetResponse ascii (example_state [SetDefault 121] [(32, None), (110, None)])) =
     Some (Returns (121, None), ''Delete File? ([y]/n/?): '', (110, None) ## closed) \<and>
   fst (getResp ascii (example_state [SetMaxReprompts 2] [(32, None), (110, None)])) =
     (ReplacementChar, Some (BadResponse 32)) \<and>
   map_option (\<lambda>(res, i, s'). (res, i))
     (response_loop ascii 0 [] [] 2 (example_state [SetMaxReprompts 2] [(32, None), (110, None)])) =
     Some ((ReplacementChar, Some (BadResponse 32)), 3)"
proof -
  let ?s = "example_state [SetDefault 121] [(32, None), (110, None)]"
  let ?t = "example_state [SetMaxReprompts 2] [(32, None), (110, None)]"
  have s: "valid_config ascii (resp ?s)" "shd (stdin ?s) = (32, None)" "IsSpace ascii 32"
    by (simp_all add: valid_config_example del: example_resp)
  have t: "valid_config ascii (resp ?t)" "shd (stdin ?t) = (32, None)"
    by (simp_all add: valid_config_example del: example_resp)
  from whitespace_selects_default [OF s, of 0 "[]" "[]" 0]
  have 1: "GetResponse ascii ?s =
      Some (Returns (121, None), (PrintPrompt (Print [] ?s))\<lparr>stdin := (110, None) ## closed\<rparr>)"
    by simp
  from whitespace_selects_default [OF t s(3), of 0 "[]" "[]" 2]
  have 2: "fst (getResp ascii ?t) = (ReplacementChar, Some (BadResponse 32))"
    and 3: "response_loop ascii 0 [] [] 2 ?t =
      Some ((ReplacementChar, Some (BadResponse 32)), 3,
            (PrintPrompt (Print [] ?t))\<lparr>stdin := (110, None) ## closed\<rparr>)"
    by simp_all
  from 1 2 3 show ?thesis
    by (simp add: PrintPrompt_default_y)
qed

lemma getResp_case_fold:
  assumes "c \<noteq> helpRune" and "\<not> IsSpace U c"
    and "ToLower U (ToLower U c) = ToLower U c" and "ToLower U c \<noteq> helpRune"
    and "\<not> IsSpace U (ToLower U c)"
  shows "getResp U (s\<lparr>stdin := (c, None) ## rest\<rparr>) =
         getResp U (s\<lparr>stdin := (ToLower U c, None) ## rest\<rparr>)"
  using assms by (simp add: getResp_def getRune_def Let_def)

lemma response_loop_case_fold:
  assumes "c \<noteq> helpRune" and "\<not> IsSpace U c"
    and "ToLower U (ToLower U c) = ToLower U c" and "ToLower U c \<noteq> helpRune"
    and "\<not> IsSpace U (ToLower U c)"
  shows "response_loop U second prefix secondPrefix i (s\<lparr>stdin := (c, None) ## rest\<rparr>) =
         response_loop U second prefix secondPrefix i (s\<lparr>stdin := (ToLower U c, None) ## rest\<rparr>)"
proof -
  have e: "getResp U (PrintPrompt (Print prefix (s\<lparr>stdin := (c, None) ## rest\<rparr>))) =
           getResp U (PrintPrompt (Print prefix (s\<lparr>stdin := (ToLower U c, None) ## rest\<rparr>)))"
    using getResp_case_fold [OF assms, where s = "PrintPrompt (Print prefix s)" and rest = rest]
    by simp
  show ?thesis
    by (rule trans [OF response_loop.simps [of U second prefix secondPrefix i
            "s\<lparr>stdin := (c, None) ## rest\<rparr>", unfolded e]
          response_loop.simps [of U second prefix secondPrefix i
            "s\<lparr>stdin := (ToLower U c, None) ## rest\<rparr>", symmetric]])
qed

text \<open>
  Claim C6. A character that is neither whitespace nor the help character is read as its
  lower-case form is: the same rune and error, the same run of the loop, the same result of
  \<^verbatim>\<open>GetResponseIndent\<close> and \<^verbatim>\<open>GetResponse\<close>. The hypotheses on the Unicode tables are that
  lower-casing twice is lower-casing once, and that the lower-case form is neither the help
  character nor whitespace.
\<close>

theorem upper_case_read_as_lower_case:
  assumes "c \<noteq> helpRune" and "\<not> IsSpace U c"
    and "ToLower U (ToLower U c) = ToLower U c" and "ToLower U c \<noteq> helpRune"
    and "\<not> IsSpace U (ToLower U c)"
  shows "fst (getResp U (s\<lparr>stdin := (c, None) ## rest\<rparr>)) =
           fst (getResp U (s\<lparr>stdin := (ToLower U c, None) ## rest\<rparr>)) \<and>
         response_loop U second prefix secondPrefix i (s\<lparr>stdin := (c, None) ## rest\<rparr>) =
           response_loop U second prefix secondPrefix i (s\<lparr>stdin := (ToLower U c, None) ## rest\<rparr>) \<and>
         map_option fst (GetResponseIndent U first second (s\<lparr>stdin := (c, None) ## rest\<rparr>)) =
           map_option fst
             (GetResponseIndent U first second (s\<lparr>stdin := (ToLower U c, None) ## rest\<rparr>)) \<and>
         map_option fst (GetResponse U (s\<lparr>stdin := (c, None) ## rest\<rparr>)) =
           map_option fst (GetResponse U (s\<lparr>stdin := (ToLower U c, None) ## rest\<rparr>))"
  by (simp add: GetResponse_def GetResponseIndent_def getResp_case_fold [OF assms]
        response_loop_case_fold [OF assms] split: option.splits)

theorem upper_case_read_as_lower_case_witness:
  "map_option fst (GetResponse ascii (example_state [] [(89, None)])) =
     map_option fst (GetResponse ascii (example_state [] [(121, None)])) \<and>
   response_loop ascii 0 [] [] 0 (example_state [] [(89, None)]) =
     response_loop ascii 0 [] [] 0 (example_state [] [(121, None)]) \<and>
   map_option fst (GetResponse ascii (example_state [] [(121, None)])) =
     Some (Returns (121, None))"
proof -
  have st: "example_state [] [(89, None)] = (example_state [] [])\<lparr>stdin := (89, None) ## closed\<rparr>"
    "example_state [] [(121, None)] =
      (example_state [] [])\<lparr>stdin := (ToLower ascii 89, None) ## closed\<rparr>"
    by (simp_all add: example_state_def)
  have "89 \<noteq> helpRune" "\<not> IsSpace ascii 89"
    "ToLower ascii (ToLower ascii 89) = ToLower ascii 89" "ToLower ascii 89 \<noteq> helpRune"
    "\<not> IsSpace ascii (ToLower ascii 89)"
    by (simp_all add: helpRune_def)
  note fold = upper_case_read_as_lower_case [OF this, where s = "example_state [] []"
      and rest = closed and first = 0 and second = 0 and prefix = "[]" and secondPrefix = "[]"
      and i = 0, folded st]
  have "fst (getResp ascii (example_state [] [(121, None)])) = (121, None)"
    using getResp_fst_valid [of "example_state [] [(121, None)]" 121 ascii "''delete the file''"]
    by (simp add: helpRune_def)
  then have "GetResponse ascii (example_state [] [(121, None)]) =
     Some (Returns (121, None),
           (PrintPrompt (Print [] (example_state [] [(121, None)])))\<lparr>stdin := closed\<rparr>)"
    using GetResponse_accepts [OF valid_config_example(1), of "[(121, None)]" 121]
    by (simp add: helpRune_def)
  with fold show ?thesis by simp
qed

subsection \<open>The text of the prompt\<close>

lemma getSortedValidResponses_eq:
  "getSortedValidResponses r = sorted_list_of_set (dom (map_of (validResps r)))"
  by (simp add: getSortedValidResponses_def keys_def dom_map_of_conv_image_fst
        sorted_list_of_set_sort_remdups [symmetric])

lemma separated_Cons:
  "separated sep (x # xs) = x @ (if xs = [] then [] else sep @ separated sep xs)"
  by (cases xs) simp_all

text \<open>What the loop of \<open>PrintValidResponses\<close> writes and the separator it ends with.\<close>

lemma print_responses_sep:
  "fst (print_responses r cs sep s) =
     (if filter (\<lambda>c. \<not> (hasDflt r \<and> c = dflt r)) cs = [] then sep else ''/'')"
  by (induction cs arbitrary: sep s) auto

lemma print_responses_text:
  "\<exists>chunks. trace (snd (print_responses r cs sep s)) = trace s @ map Stdout chunks \<and>
      concat chunks =
        (if filter (\<lambda>c. \<not> (hasDflt r \<and> c = dflt r)) cs = [] then []
         else sep @ separated ''/'' (map fmt_c (filter (\<lambda>c. \<not> (hasDflt r \<and> c = dflt r)) cs)))"
proof (induction cs arbitrary: sep s)
  case Nil
  have "trace (snd (print_responses r [] sep s)) = trace s @ map Stdout []" by simp
  then show ?case by fastforce
next
  case (Cons c cs)
  let ?P = "\<lambda>c. \<not> (hasDflt r \<and> c = dflt r)"
  show ?case
  proof (cases "hasDflt r \<and> c = dflt r")
    case True
    then have e1: "print_responses r (c # cs) sep s = print_responses r cs sep s"
      and e2: "filter ?P (c # cs) = filter ?P cs"
      by simp_all
    show ?thesis unfolding e1 e2 by (rule Cons.IH)
  next
    case False
    then have e1: "print_responses r (c # cs) sep s =
        print_responses r cs ''/'' (Print (sep @ fmt_c c) s)"
      and e2: "filter ?P (c # cs) = c # filter ?P cs"
      by auto
    from Cons.IH [of "''/''" "Print (sep @ fmt_c c) s"]
    obtain chunks where
      t: "trace (snd (print_responses r cs ''/'' (Print (sep @ fmt_c c) s))) =
           trace (Print (sep @ fmt_c c) s) @ map Stdout chunks"
      and c: "concat chunks =
        (if filter ?P cs = [] then []
         else ''/'' @ separated ''/'' (map fmt_c (filter ?P cs)))"
      by blast
    show ?thesis unfolding e1 e2
    proof (intro exI conjI)
      show "trace (snd (print_responses r cs ''/'' (Print (sep @ fmt_c c) s))) =
          trace s @ map Stdout ((sep @ fmt_c c) # chunks)"
        using t by simp
      show "concat ((sep @ fmt_c c) # chunks) =
          (if c # filter ?P cs = [] then []
           else sep @ separated ''/'' (map fmt_c (c # filter ?P cs)))"
        using c by (simp add: separated_Cons)
    qed
  qed
qed

lemma remaining_nonempty:
  assumes "2 \<le> card (set ks)"
  shows "filter (\<lambda>c. \<not> (h \<and> c = d)) ks \<noteq> []"
proof -
  from assms obtain a b where "a \<in> set ks" "b \<in> set ks" "a \<noteq> b"
    by (metis card_2_iff' card_le_Suc0_iff_eq finite_set not_less_eq_eq numeral_2_eq_2
        Suc_1 le_antisym nat_le_linear)
  then have "\<exists>x \<in> set ks. \<not> (h \<and> x = d)" by metis
  then show ?thesis by (simp add: filter_empty_conv)
qed

lemma PrintValidResponses_text:
  assumes "filter (\<lambda>c. \<not> (hasDflt (resp s) \<and> c = dflt (resp s)))
             (getSortedValidResponses (resp s)) \<noteq> []"
  shows "\<exists>chunks. trace (PrintValidResponses s) = trace s @ map Stdout chunks \<and>
      concat chunks =
        ''('' @ (if hasDflt (resp s) then ''['' @ fmt_c (dflt (resp s)) @ '']/'' else []) @
        separated ''/'' (map fmt_c (filter (\<lambda>c. \<not> (hasDflt (resp s) \<and> c = dflt (resp s)))
                                      (getSortedValidResponses (resp s)))) @
        ''/'' @ fmt_c helpRune @ ''): ''"
proof -
  let ?r = "resp s"
  let ?ks = "getSortedValidResponses ?r"
  let ?s2 = "if hasDflt ?r then Print (''['' @ fmt_c (dflt ?r) @ '']'') (Print ''('' s)
             else Print ''('' s"
  let ?sep = "if hasDflt ?r then ''/'' else []"
  have pv: "PrintValidResponses s =
      Print (fst (print_responses ?r ?ks ?sep ?s2) @ fmt_c helpRune @ ''): '')
        (snd (print_responses ?r ?ks ?sep ?s2))"
    by (simp add: PrintValidResponses_def Let_def split_beta)
  from print_responses_text [of ?r ?ks ?sep ?s2] assms
  obtain chunks where
    t: "trace (snd (print_responses ?r ?ks ?sep ?s2)) = trace ?s2 @ map Stdout chunks"
    and c: "concat chunks = ?sep @ separated ''/''
        (map fmt_c (filter (\<lambda>c. \<not> (hasDflt ?r \<and> c = dflt ?r)) ?ks))"
    by auto
  have f: "fst (print_responses ?r ?ks ?sep ?s2) = ''/''"
    using assms by (simp add: print_responses_sep)
  let ?all = "(if hasDflt ?r then [''('', ''['' @ fmt_c (dflt ?r) @ '']''] else [''(''])
              @ chunks @ [''/'' @ fmt_c helpRune @ ''): '']"
  have "trace (PrintValidResponses s) = trace s @ map Stdout ?all"
    unfolding pv f using t by simp
  moreover have "concat ?all =
      ''('' @ (if hasDflt ?r then ''['' @ fmt_c (dflt ?r) @ '']/'' else []) @
        separated ''/'' (map fmt_c (filter (\<lambda>c. \<not> (hasDflt ?r \<and> c = dflt ?r)) ?ks)) @
        ''/'' @ fmt_c helpRune @ ''): ''"
    using c by simp
  ultimately show ?thesis by blast
qed

text \<open>
  Claim C7. On a valid configuration \<^verbatim>\<open>PrintPrompt\<close> writes to standard output, and nowhere
  else, exactly: the prompt, then \<^verbatim>\<open>? (\<close>, then the default in brackets followed by a slash if
  there is a default, then the other valid characters in ascending order with slashes
  between them, then \<^verbatim>\<open>/?\<close>, then \<^verbatim>\<open>): \<close>. The witness gives the two prompts of the
  package's examples.
\<close>

theorem prompt_text:
  assumes "valid_config U (resp s)"
  shows "\<exists>chunks. trace (PrintPrompt s) = trace s @ map Stdout chunks \<and>
      concat chunks =
        prompt (resp s) @ ''? ('' @
        (if hasDflt (resp s) then ''['' @ fmt_c (dflt (resp s)) @ '']/'' else []) @
        separated ''/''
          (map fmt_c (filter (\<lambda>c. \<not> (hasDflt (resp s) \<and> c = dflt (resp s)))
                        (sorted_list_of_set (dom (map_of (validResps (resp s))))))) @
        ''/?): ''"
proof -
  let ?s1 = "Print ''? '' (Print (prompt (resp s)) s)"
  have "2 \<le> card (set (getSortedValidResponses (resp s)))"
    using valid_config_card [OF assms]
    by (simp add: getSortedValidResponses_eq finite_dom_map_of)
  then have "filter (\<lambda>c. \<not> (hasDflt (resp ?s1) \<and> c = dflt (resp ?s1)))
             (getSortedValidResponses (resp ?s1)) \<noteq> []"
    using remaining_nonempty by simp
  from PrintValidResponses_text [OF this]
  obtain chunks where
    t: "trace (PrintValidResponses ?s1) = trace ?s1 @ map Stdout chunks"
    and c: "concat chunks =
        ''('' @ (if hasDflt (resp s) then ''['' @ fmt_c (dflt (resp s)) @ '']/'' else []) @
        separated ''/'' (map fmt_c (filter (\<lambda>c. \<not> (hasDflt (resp s) \<and> c = dflt (resp s)))
                                      (getSortedValidResponses (resp s)))) @
        ''/'' @ fmt_c helpRune @ ''): ''"
    by auto
  have "trace (PrintPrompt s) = trace s @ map Stdout (prompt (resp s) # ''? '' # chunks)"
    using t by (simp add: PrintPrompt_def)
  moreover have "concat (prompt (resp s) # ''? '' # chunks) =
        prompt (resp s) @ ''? ('' @
        (if hasDflt (resp s) then ''['' @ fmt_c (dflt (resp s)) @ '']/'' else []) @
        separated ''/''
          (map fmt_c (filter (\<lambda>c. \<not> (hasDflt (resp s) \<and> c = dflt (resp s)))
                        (sorted_list_of_set (dom (map_of (validResps (resp s))))))) @
        ''/?): ''"
    using c by (simp add: getSortedValidResponses_eq helpRune_def)
  ultimately show ?thesis by blast
qed

lemma stdout_text_map_Stdout [simp]: "stdout_text (map Stdout chunks) = concat chunks"
  by (induction chunks) simp_all

lemma sorted_keys_yn: "sorted_list_of_set (dom (map_of yn)) = [110, 121]"
proof -
  have "sorted_list_of_set (dom (map_of yn)) = sort (keys yn)"
    by (simp add: keys_def dom_map_of_conv_image_fst sorted_list_of_set_sort_remdups [symmetric])
  also have "\<dots> = [110, 121]"
    by (simp add: keys_def yn_def)
  finally show ?thesis .
qed

theorem prompt_text_witness:
  "stdout_text (trace (PrintPrompt (example_state [SetDefault 121] []))) =
     ''Delete File? ([y]/n/?): '' \<and>
   stdout_text (trace (PrintPrompt (example_state [] []))) = ''Delete File? (n/y/?): ''"
proof -
  from prompt_text [OF valid_config_example(2), of "[]"]
  have "stdout_text (trace (PrintPrompt (example_state [SetDefault 121] []))) =
     ''Delete File? ([y]/n/?): ''"
    by (auto simp add: sorted_keys_yn)
  moreover from prompt_text [OF valid_config_example(1), of "[]"]
  have "stdout_text (trace (PrintPrompt (example_state [] []))) = ''Delete File? (n/y/?): ''"
    by (auto simp add: sorted_keys_yn)
  ultimately show ?thesis by simp
qed

subsection \<open>The constructor\<close>

lemma pkg_opt_fails:
  assumes "pkg_opt opt"
  shows "fst (opt r) \<noteq> None \<longleftrightarrow>
     (\<exists>d. opt = SetDefault d \<and> d \<notin> dom (map_of (validResps r))) \<or>
     (\<exists>n. opt = SetMaxReprompts n \<and> n \<le> 0) \<or>
     (\<exists>a b. opt = SetIndents a b \<and> (a < 0 \<or> b < 0))"
  using assms
proof cases
  case (1 d)
  have "fst (SetDefault d' r) \<noteq> None \<longleftrightarrow> d' \<notin> dom (map_of (validResps r))" for d'
    by (auto simp: SetDefault_def)
  moreover have "fst (SetMaxReprompts n r) \<noteq> None \<longleftrightarrow> n \<le> 0" for n
    by (auto simp: SetMaxReprompts_def)
  moreover have "fst (SetIndents a b r) \<noteq> None \<longleftrightarrow> a < 0 \<or> b < 0" for a b
    by (auto simp: SetIndents_def)
  ultimately show ?thesis by (metis 1)
next
  case (2 n)
  have "fst (SetDefault d' r) \<noteq> None \<longleftrightarrow> d' \<notin> dom (map_of (validResps r))" for d'
    by (auto simp: SetDefault_def)
  moreover have "fst (SetMaxReprompts n r) \<noteq> None \<longleftrightarrow> n \<le> 0" for n
    by (auto simp: SetMaxReprompts_def)
  moreover have "fst (SetIndents a b r) \<noteq> None \<longleftrightarrow> a < 0 \<or> b < 0" for a b
    by (auto simp: SetIndents_def)
  ultimately show ?thesis by (metis 2)
next
  case (3 a b)
  have "fst (SetDefault d' r) \<noteq> None \<longleftrightarrow> d' \<notin> dom (map_of (validResps r))" for d'
    by (auto simp: SetDefault_def)
  moreover have "fst (SetMaxReprompts n r) \<noteq> None \<longleftrightarrow> n \<le> 0" for n
    by (auto simp: SetMaxReprompts_def)
  moreover have "fst (SetIndents a b r) \<noteq> None \<longleftrightarrow> a < 0 \<or> b < 0" for a b
    by (auto simp: SetIndents_def)
  ultimately show ?thesis by (metis 3)
qed

lemma apply_opts_fails:
  assumes "\<forall>opt \<in> set opts. pkg_opt opt" and "opts_inv r"
  shows "(\<exists>e. apply_opts opts r = (None, Some e)) \<longleftrightarrow>
         (\<exists>opt \<in> set opts.
            (\<exists>d. opt = SetDefault d \<and> d \<notin> dom (map_of (validResps r))) \<or>
            (\<exists>n. opt = SetMaxReprompts n \<and> n \<le> 0) \<or>
            (\<exists>a b. opt = SetIndents a b \<and> (a < 0 \<or> b < 0)))"
  using assms
proof (induction opts arbitrary: r)
  case Nil
  then show ?case by simp
next
  case (Cons opt opts)
  from Cons.prems have p: "pkg_opt opt" by simp
  show ?case
  proof (cases "fst (opt r)")
    case (Some e)
    then have "apply_opts (opt # opts) r = (None, Some e)"
      by (cases "opt r") simp
    moreover from Some pkg_opt_fails [OF p, of r]
    have "(\<exists>d. opt = SetDefault d \<and> d \<notin> dom (map_of (validResps r))) \<or>
          (\<exists>n. opt = SetMaxReprompts n \<and> n \<le> 0) \<or>
          (\<exists>a b. opt = SetIndents a b \<and> (a < 0 \<or> b < 0))"
      by simp
    ultimately show ?thesis by auto
  next
    case None
    then obtain r' where step: "opt r = (None, r')" by (cases "opt r") simp
    from pkg_opt_preserves [OF p step Cons.prems(2)]
    have r': "opts_inv r'" "validResps r' = validResps r" by simp_all
    from None pkg_opt_fails [OF p, of r]
    have ok: "\<not> ((\<exists>d. opt = SetDefault d \<and> d \<notin> dom (map_of (validResps r))) \<or>
          (\<exists>n. opt = SetMaxReprompts n \<and> n \<le> 0) \<or>
          (\<exists>a b. opt = SetIndents a b \<and> (a < 0 \<or> b < 0)))"
      by simp
    have "apply_opts (opt # opts) r = apply_opts opts r'"
      using step by simp
    with Cons.IH [OF _ r'(1)] Cons.prems(1) r'(2) ok show ?thesis
      by (simp del: apply_opts.simps) blast
  qed
qed

text \<open>
  Claim C4. For options built by the setters of the package, \<^verbatim>\<open>New\<close> returns \<^verbatim>\<open>nil\<close> and an
  error exactly when the map has fewer than two entries, or a key is upper case, or a key
  is whitespace, or a key is the help character, or \<^verbatim>\<open>SetDefault\<close> names a rune that is no
  key, or \<^verbatim>\<open>SetMaxReprompts\<close> is given a value that is not positive, or \<^verbatim>\<open>SetIndents\<close> is
  given a negative indent; in every other case it returns a responder and \<^verbatim>\<open>nil\<close>.
\<close>

theorem New_fails_exactly_when:
  assumes "\<forall>opt \<in> set opts. pkg_opt opt"
  shows "((\<exists>e. New U prompt' responses opts = (None, Some e)) \<longleftrightarrow>
            card (dom (map_of responses)) < 2 \<or>
            (\<exists>k \<in> dom (map_of responses). IsUpper U k) \<or>
            (\<exists>k \<in> dom (map_of responses). IsSpace U k) \<or>
            helpRune \<in> dom (map_of responses) \<or>
            (\<exists>d. SetDefault d \<in> set opts \<and> d \<notin> dom (map_of responses)) \<or>
            (\<exists>n. SetMaxReprompts n \<in> set opts \<and> n \<le> 0) \<or>
            (\<exists>a b. SetIndents a b \<in> set opts \<and> (a < 0 \<or> b < 0))) \<and>
         ((\<exists>r. New U prompt' responses opts = (Some r, None)) \<longleftrightarrow>
            \<not> (card (dom (map_of responses)) < 2 \<or>
            (\<exists>k \<in> dom (map_of responses). IsUpper U k) \<or>
            (\<exists>k \<in> dom (map_of responses). IsSpace U k) \<or>
            helpRune \<in> dom (map_of responses) \<or>
            (\<exists>d. SetDefault d \<in> set opts \<and> d \<notin> dom (map_of responses)) \<or>
            (\<exists>n. SetMaxReprompts n \<in> set opts \<and> n \<le> 0) \<or>
            (\<exists>a b. SetIndents a b \<in> set opts \<and> (a < 0 \<or> b < 0))))"
proof -
  let ?r0 = "\<lparr> prompt = prompt', validResps = responses, hasDflt = False, dflt = 0,
                maxReprompts = 0, limitPrompts = False, fd = 0, indent = 0, indentFirst = 0 \<rparr>"
  let ?few = "card (dom (map_of responses)) < 2"
  let ?key = "(\<exists>k \<in> dom (map_of responses). IsUpper U k) \<or>
            (\<exists>k \<in> dom (map_of responses). IsSpace U k) \<or>
            helpRune \<in> dom (map_of responses)"
  let ?opt = "(\<exists>d. SetDefault d \<in> set opts \<and> d \<notin> dom (map_of responses)) \<or>
            (\<exists>n. SetMaxReprompts n \<in> set opts \<and> n \<le> 0) \<or>
            (\<exists>a b. SetIndents a b \<in> set opts \<and> (a < 0 \<or> b < 0))"
  have inv: "opts_inv ?r0" by (simp add: opts_inv_def)
  have key: "check_responses U (keys responses) \<noteq> None \<longleftrightarrow> ?key"
    by (auto simp: check_responses_None keys_set)
  have opt: "(\<exists>e. apply_opts opts ?r0 = (None, Some e)) \<longleftrightarrow> ?opt"
  proof -
    have v: "validResps ?r0 = responses" by simp
    from apply_opts_fails [OF assms inv, unfolded v] show ?thesis by blast
  qed
  have shape: "(\<exists>r. apply_opts opts ?r0 = (Some r, None)) \<longleftrightarrow>
      \<not> (\<exists>e. apply_opts opts ?r0 = (None, Some e))"
    using apply_opts_shape [of opts ?r0] by auto
  have fails: "(\<exists>e. New U prompt' responses opts = (None, Some e)) \<longleftrightarrow> ?few \<or> ?key \<or> ?opt"
  proof (cases ?few)
    case True
    then show ?thesis by (simp add: New_def len_card)
  next
    case False
    then have big: "\<not> len responses \<le> 1" by (simp add: len_card)
    show ?thesis
    proof (cases "check_responses U (keys responses)")
      case (Some e)
      with key have ?key by simp
      moreover from Some big have "New U prompt' responses opts = (None, Some e)"
        by (simp add: New_def)
      ultimately show ?thesis by blast
    next
      case None
      with key have nk: "\<not> ?key" by simp
      from None big have "New U prompt' responses opts = apply_opts opts ?r0"
        by (simp add: New_def)
      with opt nk False show ?thesis by simp
    qed
  qed
  have ok: "(\<exists>r. New U prompt' responses opts = (Some r, None)) \<longleftrightarrow> \<not> (?few \<or> ?key \<or> ?opt)"
  proof (cases ?few)
    case True
    then show ?thesis by (simp add: New_def len_card)
  next
    case False
    then have big: "\<not> len responses \<le> 1" by (simp add: len_card)
    show ?thesis
    proof (cases "check_responses U (keys responses)")
      case (Some e)
      with key have ?key by simp
      moreover from Some big have "New U prompt' responses opts = (None, Some e)"
        by (simp add: New_def)
      ultimately show ?thesis by simp
    next
      case None
      with key have nk: "\<not> ?key" by simp
      from None big have "New U prompt' responses opts = apply_opts opts ?r0"
        by (simp add: New_def)
      with opt shape nk False show ?thesis by simp
    qed
  qed
  from fails ok show ?thesis by simp
qed

text \<open>The three setters build different options.\<close>

lemma setters_distinct:
  "SetDefault d = SetDefault d' \<longleftrightarrow> d = d'"
  "SetMaxReprompts n = SetMaxReprompts n' \<longleftrightarrow> n = n'"
  "SetIndents a b = SetIndents a' b' \<and> 0 \<le> a' \<and> 0 \<le> b' \<longleftrightarrow> a = a' \<and> b = b' \<and> 0 \<le> a' \<and> 0 \<le> b'"
  "SetDefault d \<noteq> SetMaxReprompts n" "SetMaxReprompts n \<noteq> SetDefault d"
  "SetDefault d \<noteq> SetIndents a b" "SetIndents a b \<noteq> SetDefault d"
  "SetMaxReprompts n \<noteq> SetIndents a b" "SetIndents a b \<noteq> SetMaxReprompts n"
proof -
  let ?r = "\<lparr> prompt = [], validResps = [], hasDflt = False, dflt = 0,
              maxReprompts = 0, limitPrompts = False, fd = 0, indent = 0, indentFirst = 0 \<rparr>"
  have D: "SetDefault d ?r = (Some (DefaultNotValid d), ?r)" for d
    by (simp add: SetDefault_def)
  have M: "SetMaxReprompts n ?r =
      (if n \<le> 0 then (Some (BadMaxReprompts n), ?r)
       else (None, ?r\<lparr>maxReprompts := n, limitPrompts := True\<rparr>))" for n
    by (simp add: SetMaxReprompts_def)
  have I: "SetIndents a b ?r =
      (if b < 0 then (Some (BadIndent b), ?r)
       else if a < 0 then (Some (BadFirstIndent a), ?r)
       else (None, ?r\<lparr>indent := b, indentFirst := a\<rparr>))" for a b
    by (simp add: SetIndents_def)
  have app: "f = g \<Longrightarrow> f ?r = g ?r" for f g :: RespOptFunc
    by simp
  show "SetDefault d = SetDefault d' \<longleftrightarrow> d = d'"
  proof
    assume "SetDefault d = SetDefault d'"
    from app [OF this] show "d = d'" unfolding D by simp
  qed simp
  show "SetMaxReprompts n = SetMaxReprompts n' \<longleftrightarrow> n = n'"
  proof
    assume "SetMaxReprompts n = SetMaxReprompts n'"
    from app [OF this] show "n = n'" unfolding M by (simp split: if_splits)
  qed simp
  show "SetIndents a b = SetIndents a' b' \<and> 0 \<le> a' \<and> 0 \<le> b' \<longleftrightarrow>
      a = a' \<and> b = b' \<and> 0 \<le> a' \<and> 0 \<le> b'"
  proof
    assume e: "SetIndents a b = SetIndents a' b' \<and> 0 \<le> a' \<and> 0 \<le> b'"
    then have "SetIndents a b = SetIndents a' b'" by simp
    from app [OF this] e show "a = a' \<and> b = b' \<and> 0 \<le> a' \<and> 0 \<le> b'"
      unfolding I by (simp split: if_splits)
  qed simp
  show "SetDefault d \<noteq> SetMaxReprompts n"
  proof
    assume "SetDefault d = SetMaxReprompts n"
    from app [OF this] show False unfolding D M by (simp split: if_splits)
  qed
  then show "SetMaxReprompts n \<noteq> SetDefault d" by (rule not_sym)
  show "SetDefault d \<noteq> SetIndents a b"
  proof
    assume "SetDefault d = SetIndents a b"
    from app [OF this] show False unfolding D I by (simp split: if_splits)
  qed
  then show "SetIndents a b \<noteq> SetDefault d" by (rule not_sym)
  show "SetMaxReprompts n \<noteq> SetIndents a b"
  proof
    assume "SetMaxReprompts n = SetIndents a b"
    from app [OF this] show False unfolding M I by (simp split: if_splits)
  qed
  then show "SetIndents a b \<noteq> SetMaxReprompts n" by (rule not_sym)
qed

theorem New_fails_exactly_when_witness:
  "fst (New ascii ''Delete File'' yn [SetMaxReprompts 2, SetDefault 122]) = None \<and>
   snd (New ascii ''Delete File'' yn [SetMaxReprompts 2, SetDefault 122]) \<noteq> None \<and>
   fst (New ascii ''Delete File'' yn [SetDefault 121, SetMaxReprompts 2, SetIndents 0 4]) \<noteq> None \<and>
   snd (New ascii ''Delete File'' yn [SetDefault 121, SetMaxReprompts 2, SetIndents 0 4]) = None"
proof -
  have p1: "\<forall>opt \<in> set [SetMaxReprompts 2, SetDefault 122]. pkg_opt opt"
    and p2: "\<forall>opt \<in> set [SetDefault 121, SetMaxReprompts 2, SetIndents 0 4]. pkg_opt opt"
    by (simp_all add: pkg_opt.intros)
  have bad: "SetDefault 122 \<in> set [SetMaxReprompts 2, SetDefault 122] \<and> 122 \<notin> dom (map_of yn)"
    by simp
  have good: "\<not> (card (dom (map_of yn)) < 2 \<or>
            (\<exists>k \<in> dom (map_of yn). IsUpper ascii k) \<or>
            (\<exists>k \<in> dom (map_of yn). IsSpace ascii k) \<or>
            helpRune \<in> dom (map_of yn) \<or>
            (\<exists>d. SetDefault d \<in> set [SetDefault 121, SetMaxReprompts 2, SetIndents 0 4] \<and>
                 d \<notin> dom (map_of yn)) \<or>
            (\<exists>n. SetMaxReprompts n \<in> set [SetDefault 121, SetMaxReprompts 2, SetIndents 0 4] \<and>
                 n \<le> 0) \<or>
            (\<exists>a b. SetIndents a b \<in> set [SetDefault 121, SetMaxReprompts 2, SetIndents 0 4] \<and>
                 (a < 0 \<or> b < 0)))"
  proof -
    have "SetIndents a b = SetIndents 0 4 \<Longrightarrow> \<not> (a < 0 \<or> b < 0)" for a b
      using setters_distinct(3) [of a b 0 4] by auto
    then show ?thesis
      by (auto simp add: setters_distinct ascii_def helpRune_def)
  qed
  from bad have bad': "card (dom (map_of yn)) < 2 \<or>
            (\<exists>k \<in> dom (map_of yn). IsUpper ascii k) \<or>
            (\<exists>k \<in> dom (map_of yn). IsSpace ascii k) \<or>
            helpRune \<in> dom (map_of yn) \<or>
            (\<exists>d. SetDefault d \<in> set [SetMaxReprompts 2, SetDefault 122] \<and>
                 d \<notin> dom (map_of yn)) \<or>
            (\<exists>n. SetMaxReprompts n \<in> set [SetMaxReprompts 2, SetDefault 122] \<and> n \<le> 0) \<or>
            (\<exists>a b. SetIndents a b \<in> set [SetMaxReprompts 2, SetDefault 122] \<and>
                 (a < 0 \<or> b < 0))"
    by blast
  from iffD2 [OF conjunct1 [OF New_fails_exactly_when [OF p1]] bad']
  obtain e where "New ascii ''Delete File'' yn [SetMaxReprompts 2, SetDefault 122] = (None, Some e)"
    by (rule exE)
  moreover from iffD2 [OF conjunct2 [OF New_fails_exactly_when [OF p2]] good]
  obtain r where "New ascii ''Delete File'' yn [SetDefault 121, SetMaxReprompts 2, SetIndents 0 4] =
      (Some r, None)"
    by (rule exE)
  ultimately show ?thesis by simp
qed

end
